theory Spec2Isabelle
  imports Complex_Main
begin

section \<open>Tensors\<close>

text \<open>
  The program computes with torch tensors. A tensor of reals is modelled by nested lists in
  row-major order: a vector is a list, a matrix a list of rows, and so on. Floating-point
  numbers are modelled by exact reals; integer tensors hold Python/torch integers as
  \<open>int\<close>. Every exception the code can raise is a value of \<open>error\<close>.
\<close>

datatype error = IndexError | RuntimeError | ZeroDivisionError

type_synonym vec = "real list"
type_synonym mat = "real list list"
type_synonym tensor3 = "real list list list"
type_synonym tensor4 = "real list list list list"

text \<open>\<open>is_shape2 r c m\<close>: the nested list \<open>m\<close> is a rectangular \<open>r \<times> c\<close> matrix.\<close>

definition is_shape2 :: "nat \<Rightarrow> nat \<Rightarrow> 'a list list \<Rightarrow> bool" where
  "is_shape2 r c m \<longleftrightarrow> length m = r \<and> list_all (\<lambda>row. length row = c) m"

definition is_shape3 :: "nat \<Rightarrow> nat \<Rightarrow> nat \<Rightarrow> 'a list list list \<Rightarrow> bool" where
  "is_shape3 a b c t \<longleftrightarrow> length t = a \<and> list_all (is_shape2 b c) t"

definition is_shape4 :: "nat \<Rightarrow> nat \<Rightarrow> nat \<Rightarrow> nat \<Rightarrow> 'a list list list list \<Rightarrow> bool" where
  "is_shape4 n a b c t \<longleftrightarrow> length t = n \<and> list_all (is_shape3 a b c) t"

subsection \<open>Elementwise operations on matrices\<close>

text \<open>
  Unary operations map over every element. The binary operations below are used by the
  program on operands of equal shape only (the loss receives a logit matrix and a target
  matrix built for the same batch), and are modelled for that case.
\<close>

definition t_abs :: "mat \<Rightarrow> mat" where
  "t_abs x = map (map abs) x"

definition t_neg :: "mat \<Rightarrow> mat" where
  "t_neg x = map (map uminus) x"

definition t_exp :: "mat \<Rightarrow> mat" where
  "t_exp x = map (map exp) x"

definition t_log :: "mat \<Rightarrow> mat" where
  "t_log x = map (map ln) x"

definition clamp_min :: "mat \<Rightarrow> real \<Rightarrow> mat" where
  "clamp_min x lo = map (map (\<lambda>v. max v lo)) x"

definition scalar_add :: "real \<Rightarrow> mat \<Rightarrow> mat" where
  "scalar_add a x = map (map (\<lambda>v. a + v)) x"

definition t_mul :: "mat \<Rightarrow> mat \<Rightarrow> mat" where
  "t_mul x y = map2 (map2 (*)) x y"

definition t_sub :: "mat \<Rightarrow> mat \<Rightarrow> mat" where
  "t_sub x y = map2 (map2 (-)) x y"

definition t_add :: "mat \<Rightarrow> mat \<Rightarrow> mat" where
  "t_add x y = map2 (map2 (+)) x y"

text \<open>
  \<open>Tensor.mean()\<close> over all elements. On a tensor without elements torch returns \<open>nan\<close>,
  which is no real number: \<open>None\<close> here.
\<close>

definition mean :: "real list \<Rightarrow> real option" where
  "mean xs = (if xs = [] then None else Some (sum_list xs / real (length xs)))"

definition t_mean :: "mat \<Rightarrow> real option" where
  "t_mean x = mean (concat x)"

subsection \<open>Errors in a list of results\<close>

text \<open>A loop body that may raise, run over a list: the first exception ends the loop.\<close>

fun sequence_err :: "(error + 'a) list \<Rightarrow> error + 'a list" where
  "sequence_err [] = Inr []"
| "sequence_err (x # xs) =
     (case x of
        Inl e \<Rightarrow> Inl e
      | Inr v \<Rightarrow> (case sequence_err xs of Inl e \<Rightarrow> Inl e | Inr vs \<Rightarrow> Inr (v # vs)))"

section \<open>The model: model.py\<close>

text \<open>
  The network is modelled in inference mode (\<open>ds_conv_e.train(False)\<close>, as \<open>valid\<close> sets
  it): a dropout layer is then the identity and a batch-normalisation layer uses its
  running statistics. In training mode these layers rescale elements (dropout with a random
  mask, batch normalisation with the statistics of the batch); they never change a shape.
  The learnable parameters are fields of the records below; \<open>__init__\<close> fixes their shapes
  (see \<open>DSConvE_wf\<close>) and draws their initial values at random.
\<close>

subsection \<open>Library layers\<close>

text \<open>
  \<open>nn.Embedding\<close>: row \<open>i\<close> of the weight matrix for an index \<open>i\<close> in
  \<open>[0, num_embeddings)\<close>; any other index (negative ones too) is rejected.
\<close>

definition embedding_lookup :: "mat \<Rightarrow> int \<Rightarrow> error + vec" where
  "embedding_lookup weight i =
     (if 0 \<le> i \<and> i < int (length weight) then Inr (weight ! nat i) else Inl IndexError)"

definition Embedding_forward :: "mat \<Rightarrow> int list \<Rightarrow> error + mat" where
  "Embedding_forward weight idx = sequence_err (map (embedding_lookup weight) idx)"

text \<open>\<open>chunks n xs\<close>: the consecutive blocks of length \<open>n\<close> of \<open>xs\<close> (row-major reshape).\<close>

definition chunks :: "nat \<Rightarrow> 'a list \<Rightarrow> 'a list list" where
  "chunks n xs = map (\<lambda>i. take n (drop (i * n) xs)) [0..<length xs div n]"

text \<open>
  \<open>x.view(-1, d1, d2)\<close> on a matrix: the elements in row-major order, regrouped into
  blocks of \<open>d1\<close> rows of \<open>d2\<close> elements. torch rejects the call when the number of
  elements is no multiple of \<open>d1 * d2\<close>, and when there is no element at all (the
  size \<open>-1\<close> stands for is then ambiguous).
\<close>

definition view3 :: "nat \<Rightarrow> nat \<Rightarrow> mat \<Rightarrow> error + tensor3" where
  "view3 d1 d2 x =
     (let flat = concat x
      in if flat = [] \<or> d1 * d2 = 0 \<or> length flat mod (d1 * d2) \<noteq> 0 then Inl RuntimeError
         else Inr (map (chunks d2) (chunks (d1 * d2) flat)))"

text \<open>
  \<open>torch.cat([a, b], dim=1)\<close> on two 3-dimensional tensors: the sizes of dimension 0
  (the batch) and of dimension 2 must agree.
\<close>

definition same_lengths :: "'a list list \<Rightarrow> bool" where
  "same_lengths rows = (case rows of [] \<Rightarrow> True | r # rs \<Rightarrow> list_all (\<lambda>q. length q = length r) rs)"

definition cat_dim1 :: "tensor3 \<Rightarrow> tensor3 \<Rightarrow> error + tensor3" where
  "cat_dim1 a b =
     (if length a \<noteq> length b \<or> \<not> same_lengths (concat a @ concat b) then Inl RuntimeError
      else Inr (map2 (@) a b))"

definition unsqueeze1 :: "tensor3 \<Rightarrow> tensor4" where
  "unsqueeze1 x = map (\<lambda>img. [img]) x"

text \<open>Height and width of a single-channel image.\<close>

definition height :: "mat \<Rightarrow> nat" where
  "height img = length img"

definition width :: "mat \<Rightarrow> nat" where
  "width img = (case img of [] \<Rightarrow> 0 | row # _ \<Rightarrow> length row)"

text \<open>Zero padding of \<open>p\<close> rows and columns on every side.\<close>

definition pad2d :: "nat \<Rightarrow> mat \<Rightarrow> mat" where
  "pad2d p img =
     (let zrow = replicate (width img + 2 * p) 0
      in replicate p zrow @ map (\<lambda>row. replicate p 0 @ row @ replicate p 0) img
         @ replicate p zrow)"

text \<open>
  One kernel slid over one channel, stride 1 (the cross-correlation \<open>nn.Conv2d\<close>
  computes): output element \<open>(i, j)\<close> is the sum of \<open>ker[a][b] * img[i+a][j+b]\<close>. A
  kernel larger than the image is rejected.
\<close>

definition corr2d :: "mat \<Rightarrow> mat \<Rightarrow> error + mat" where
  "corr2d ker img =
     (let k = length ker
      in if k = 0 \<or> height img < k \<or> width img < k then Inl RuntimeError
         else Inr (map (\<lambda>i. map (\<lambda>j.
                sum_list (map (\<lambda>a. sum_list (map (\<lambda>b. ker ! a ! b * img ! (i + a) ! (j + b))
                                              [0..<k])) [0..<k]))
                [0..<width img + 1 - k]) [0..<height img + 1 - k]))"

text \<open>\<open>nn.ReLU\<close>.\<close>

definition relu :: "real \<Rightarrow> real" where
  "relu v = max v 0"

definition ReLU2 :: "mat \<Rightarrow> mat" where
  "ReLU2 x = map (map relu) x"

definition ReLU4 :: "tensor4 \<Rightarrow> tensor4" where
  "ReLU4 x = map (map (map (map relu))) x"

text \<open>
  \<open>nn.BatchNorm2d\<close> and \<open>nn.BatchNorm1d\<close> in inference mode: channel (feature) \<open>c\<close> is
  normalised with its running mean and variance, then scaled and shifted.
\<close>

record BatchNorm =
  num_features :: nat
  bn_weight :: vec
  bn_bias :: vec
  running_mean :: vec
  running_var :: vec
  bn_eps :: real

definition bn_elem :: "BatchNorm \<Rightarrow> nat \<Rightarrow> real \<Rightarrow> real" where
  "bn_elem bn c v =
     (v - running_mean bn ! c) / sqrt (running_var bn ! c + bn_eps bn) * bn_weight bn ! c
     + bn_bias bn ! c"

definition BatchNorm2d_forward :: "BatchNorm \<Rightarrow> tensor4 \<Rightarrow> error + tensor4" where
  "BatchNorm2d_forward bn x =
     (if list_ex (\<lambda>img. length img \<noteq> num_features bn) x then Inl RuntimeError
      else Inr (map (\<lambda>img. map (\<lambda>c. map (map (bn_elem bn c)) (img ! c)) [0..<length img]) x))"

definition BatchNorm1d_forward :: "BatchNorm \<Rightarrow> mat \<Rightarrow> error + mat" where
  "BatchNorm1d_forward bn x =
     (if list_ex (\<lambda>row. length row \<noteq> num_features bn) x then Inl RuntimeError
      else Inr (map (\<lambda>row. map (\<lambda>c. bn_elem bn c (row ! c)) [0..<length row]) x))"

text \<open>\<open>nn.Linear\<close>: \<open>y = x W\<^sup>T + b\<close>, with \<open>W\<close> of shape \<open>(out_features, in_features)\<close>.\<close>

record Linear =
  in_features :: nat
  out_features :: nat
  lin_weight :: mat
  lin_bias :: vec

definition dot :: "vec \<Rightarrow> vec \<Rightarrow> real" where
  "dot u v = sum_list (map2 (*) u v)"

definition Linear_forward :: "Linear \<Rightarrow> mat \<Rightarrow> error + mat" where
  "Linear_forward lin x =
     (if list_ex (\<lambda>row. length row \<noteq> in_features lin) x then Inl RuntimeError
      else Inr (map (\<lambda>row. map (\<lambda>j. dot row (lin_weight lin ! j) + lin_bias lin ! j)
                             [0..<out_features lin]) x))"

text \<open>\<open>a.mm(b.t())\<close>: entry \<open>(i, j)\<close> is the dot product of row \<open>i\<close> of \<open>a\<close> and row \<open>j\<close> of \<open>b\<close>.\<close>

definition mm_t :: "mat \<Rightarrow> mat \<Rightarrow> error + mat" where
  "mm_t a b =
     (if \<not> same_lengths (a @ b) then Inl RuntimeError
      else Inr (map (\<lambda>row. map (\<lambda>col. dot row col) b) a))"

text \<open>\<open>F.sigmoid\<close>, the logistic function.\<close>

definition sigmoid :: "real \<Rightarrow> real" where
  "sigmoid x = 1 / (1 + exp (- x))"

subsection \<open>\<open>Flatten\<close>\<close>

text \<open>
  \<^verbatim>\<open>
  def forward(self, x):
      n, _, _, _ = x.size()
      x = x.view(n, -1)
      return x
  \<close>
\<close>

definition Flatten_forward :: "tensor4 \<Rightarrow> error + mat" where
  "Flatten_forward x = (if concat (concat (concat x)) = [] then Inl RuntimeError
                        else Inr (map (\<lambda>img. concat (concat img)) x))"

subsection \<open>\<open>DSConv2d\<close>\<close>

text \<open>
  \<^verbatim>\<open>
  self.depthwise = nn.Conv2d(in_channels, in_channels, kernel_size=kernel_size,
                             padding=padding, groups=in_channels, bias=bias)
  self.pointwise = nn.Conv2d(in_channels, out_channels, kernel_size=1, bias=bias)

  def forward(self, x):
      out = self.depthwise(x)
      out = self.pointwise(out)
      return out
  \<close>
  With \<open>groups = in_channels\<close> the depthwise stage has one \<open>k \<times> k\<close> kernel per input
  channel, applied to that channel alone. The pointwise stage has one weight per pair of
  output and input channel. \<open>bias\<close> is \<open>False\<close> (the default, which \<open>DSConvE\<close> keeps).
\<close>

record DSConv2d =
  in_channels :: nat
  out_channels :: nat
  kernel_size :: nat
  padding :: nat
  depthwise_weight :: "mat list"
  pointwise_weight :: mat

definition depthwise :: "DSConv2d \<Rightarrow> tensor3 \<Rightarrow> error + tensor3" where
  "depthwise m img =
     (if length img \<noteq> in_channels m then Inl RuntimeError
      else sequence_err (map (\<lambda>c. corr2d (depthwise_weight m ! c) (pad2d (padding m) (img ! c)))
                             [0..<in_channels m]))"

definition pointwise :: "DSConv2d \<Rightarrow> tensor3 \<Rightarrow> error + tensor3" where
  "pointwise m img =
     (if length img \<noteq> in_channels m then Inl RuntimeError
      else Inr (map (\<lambda>oc. map (\<lambda>i. map (\<lambda>j.
                  sum_list (map (\<lambda>c. pointwise_weight m ! oc ! c * img ! c ! i ! j)
                                [0..<in_channels m]))
                  [0..<(case img of [] \<Rightarrow> 0 | ch # _ \<Rightarrow> width ch)])
                  [0..<(case img of [] \<Rightarrow> 0 | ch # _ \<Rightarrow> height ch)])
                  [0..<out_channels m]))"

definition DSConv2d_image :: "DSConv2d \<Rightarrow> tensor3 \<Rightarrow> error + tensor3" where
  "DSConv2d_image m img = (case depthwise m img of Inl e \<Rightarrow> Inl e | Inr out \<Rightarrow> pointwise m out)"

definition DSConv2d_forward :: "DSConv2d \<Rightarrow> tensor4 \<Rightarrow> error + tensor4" where
  "DSConv2d_forward m x = sequence_err (map (DSConv2d_image m) x)"

subsection \<open>\<open>DSConvE\<close>\<close>

record DSConvE =
  num_e :: nat
  num_r :: nat
  embedding_size_h :: nat
  embedding_size_w :: nat
  embed_e :: mat
  embed_r :: mat
  conv :: DSConv2d
  conv_bn :: BatchNorm
  proj :: Linear
  proj_bn :: BatchNorm

text \<open>
  \<^verbatim>\<open>
  embedding_size = embedding_size_h * embedding_size_w
  flattened_size = (embedding_size_w * 2 - conv_kernel_size + 1) * \
                   (embedding_size_h - conv_kernel_size + 1) * conv_channels
  \<close>
  computed on Python integers.
\<close>

definition embedding_size :: "nat \<Rightarrow> nat \<Rightarrow> nat" where
  "embedding_size h w = h * w"

definition flattened_size :: "nat \<Rightarrow> nat \<Rightarrow> nat \<Rightarrow> nat \<Rightarrow> int" where
  "flattened_size h w conv_channels conv_kernel_size =
     (int w * 2 - int conv_kernel_size + 1) * (int h - int conv_kernel_size + 1)
     * int conv_channels"

text \<open>
  The shapes \<open>__init__\<close> gives the parameters, for \<open>conv_channels\<close> and
  \<open>conv_kernel_size\<close>: two embedding tables of \<open>embedding_size\<close> columns, a convolution
  \<open>DSConv2d(in_channels=1, out_channels=conv_channels, kernel_size=conv_kernel_size,
  padding=0)\<close>, \<open>BatchNorm2d(conv_channels)\<close>, \<open>Linear(flattened_size, embedding_size)\<close> and
  \<open>BatchNorm1d(embedding_size)\<close>.
\<close>

definition BatchNorm_wf :: "nat \<Rightarrow> BatchNorm \<Rightarrow> bool" where
  "BatchNorm_wf n bn \<longleftrightarrow>
     num_features bn = n \<and> length (bn_weight bn) = n \<and> length (bn_bias bn) = n
     \<and> length (running_mean bn) = n \<and> length (running_var bn) = n"

definition DSConvE_wf :: "nat \<Rightarrow> nat \<Rightarrow> DSConvE \<Rightarrow> bool" where
  "DSConvE_wf conv_channels conv_kernel_size m \<longleftrightarrow>
     is_shape2 (num_e m) (embedding_size (embedding_size_h m) (embedding_size_w m)) (embed_e m)
     \<and> is_shape2 (num_r m) (embedding_size (embedding_size_h m) (embedding_size_w m)) (embed_r m)
     \<and> in_channels (conv m) = 1 \<and> out_channels (conv m) = conv_channels
     \<and> kernel_size (conv m) = conv_kernel_size \<and> padding (conv m) = 0
     \<and> is_shape3 1 conv_kernel_size conv_kernel_size (depthwise_weight (conv m))
     \<and> is_shape2 conv_channels 1 (pointwise_weight (conv m))
     \<and> BatchNorm_wf conv_channels (conv_bn m)
     \<and> int (in_features (proj m))
         = flattened_size (embedding_size_h m) (embedding_size_w m) conv_channels conv_kernel_size
     \<and> out_features (proj m) = embedding_size (embedding_size_h m) (embedding_size_w m)
     \<and> is_shape2 (out_features (proj m)) (in_features (proj m)) (lin_weight (proj m))
     \<and> length (lin_bias (proj m)) = out_features (proj m)
     \<and> BatchNorm_wf (embedding_size (embedding_size_h m) (embedding_size_w m)) (proj_bn m)"

text \<open>
  \<^verbatim>\<open>
  def forward(self, s, r):
      embed_s = self.embed_e(s)
      embed_r = self.embed_r(r)

      embed_s = embed_s.view(-1, self.embedding_size_w, self.embedding_size_h)
      embed_r = embed_r.view(-1, self.embedding_size_w, self.embedding_size_h)
      conv_input = torch.cat([embed_s, embed_r], dim=1).unsqueeze(1)
      out = self.conv_e(conv_input)

      scores = out.mm(self.embed_e.weight.t())

      return scores

  def test(self, s, r):
      return F.sigmoid(self(s, r))
  \<close>
\<close>

definition conv_input :: "DSConvE \<Rightarrow> int list \<Rightarrow> int list \<Rightarrow> error + tensor4" where
  "conv_input m s r =
     (case Embedding_forward (embed_e m) s of Inl e \<Rightarrow> Inl e | Inr es \<Rightarrow>
      case Embedding_forward (embed_r m) r of Inl e \<Rightarrow> Inl e | Inr er \<Rightarrow>
      case view3 (embedding_size_w m) (embedding_size_h m) es of Inl e \<Rightarrow> Inl e | Inr vs \<Rightarrow>
      case view3 (embedding_size_w m) (embedding_size_h m) er of Inl e \<Rightarrow> Inl e | Inr vr \<Rightarrow>
      case cat_dim1 vs vr of Inl e \<Rightarrow> Inl e | Inr c \<Rightarrow> Inr (unsqueeze1 c))"

text \<open>
  \<open>self.conv_e\<close>: \<open>Dropout\<close> (identity), \<open>DSConv2d\<close>, \<open>ReLU\<close>, \<open>BatchNorm2d\<close>, \<open>Dropout2d\<close>
  (identity), \<open>Flatten\<close>, \<open>Linear\<close>, \<open>ReLU\<close>, \<open>BatchNorm1d\<close>, \<open>Dropout\<close> (identity).
\<close>

definition conv_e :: "DSConvE \<Rightarrow> tensor4 \<Rightarrow> error + mat" where
  "conv_e m x =
     (case DSConv2d_forward (conv m) x of Inl e \<Rightarrow> Inl e | Inr c \<Rightarrow>
      case BatchNorm2d_forward (conv_bn m) (ReLU4 c) of Inl e \<Rightarrow> Inl e | Inr b \<Rightarrow>
      case Flatten_forward b of Inl e \<Rightarrow> Inl e | Inr f \<Rightarrow>
      case Linear_forward (proj m) f of Inl e \<Rightarrow> Inl e | Inr l \<Rightarrow>
      BatchNorm1d_forward (proj_bn m) (ReLU2 l))"

definition DSConvE_forward :: "DSConvE \<Rightarrow> int list \<Rightarrow> int list \<Rightarrow> error + mat" where
  "DSConvE_forward m s r =
     (case conv_input m s r of Inl e \<Rightarrow> Inl e | Inr ci \<Rightarrow>
      case conv_e m ci of Inl e \<Rightarrow> Inl e | Inr out \<Rightarrow> mm_t out (embed_e m))"

definition DSConvE_test :: "DSConvE \<Rightarrow> int list \<Rightarrow> int list \<Rightarrow> error + mat" where
  "DSConvE_test m s r =
     (case DSConvE_forward m s r of Inl e \<Rightarrow> Inl e | Inr scores \<Rightarrow> Inr (map (map sigmoid) scores))"

section \<open>The loss: \<open>StableBCELoss\<close> (train.py)\<close>

text \<open>
  \<^verbatim>\<open>
  def forward(self, input, target):
      neg_abs = - input.abs()
      loss = input.clamp(min=0) - input * target + (1 + neg_abs.exp()).log()
      return loss.mean()
  \<close>
\<close>

definition StableBCELoss_loss :: "mat \<Rightarrow> mat \<Rightarrow> mat" where
  "StableBCELoss_loss input target =
     (let neg_abs = t_neg (t_abs input)
      in t_add (t_sub (clamp_min input 0) (t_mul input target))
               (t_log (scalar_add 1 (t_exp neg_abs))))"

definition StableBCELoss_forward :: "mat \<Rightarrow> mat \<Rightarrow> real option" where
  "StableBCELoss_forward input target = t_mean (StableBCELoss_loss input target)"

text \<open>
  Every tensor the forward pass computes before the mean, in the order Python evaluates
  the two assignments: \<open>input.abs()\<close>, \<open>neg_abs\<close>, \<open>input.clamp(min=0)\<close>,
  \<open>input * target\<close>, their difference, \<open>neg_abs.exp()\<close>, \<open>1 + neg_abs.exp()\<close>, its
  logarithm, and \<open>loss\<close>.
\<close>

definition StableBCELoss_intermediates :: "mat \<Rightarrow> mat \<Rightarrow> mat list" where
  "StableBCELoss_intermediates input target =
     (let a = t_abs input;
          neg_abs = t_neg a;
          c = clamp_min input 0;
          p = t_mul input target;
          d = t_sub c p;
          e = t_exp neg_abs;
          s = scalar_add 1 e;
          l = t_log s
      in [a, neg_abs, c, p, d, e, s, l, t_add d l])"

text \<open>
  The program computes in single precision (torch's default tensor type; the targets are
  made by \<open>.float()\<close>). \<open>float32_max\<close> is the largest finite single-precision number,
  \<open>(2 - 2\<^sup>-\<^sup>2\<^sup>3) * 2\<^sup>1\<^sup>2\<^sup>7\<close>. Under round-to-nearest, the exact result of an operation becomes
  a finite number, and not an infinity, when its magnitude is below
  \<open>(2 - 2\<^sup>-\<^sup>2\<^sup>4) * 2\<^sup>1\<^sup>2\<^sup>7\<close>: \<open>float32_finite\<close>.
\<close>

definition float32_max :: real where
  "float32_max = (2 - 1 / 2 ^ 23) * 2 ^ 127"

definition float32_finite :: "real \<Rightarrow> bool" where
  "float32_finite v \<longleftrightarrow> \<bar>v\<bar> < (2 - 1 / 2 ^ 24) * 2 ^ 127"

text \<open>The per-element formula in the words of the specification.\<close>

definition spec_elem_loss :: "real \<Rightarrow> real \<Rightarrow> real" where
  "spec_elem_loss x t = max x 0 - x * t + ln (1 + exp (- \<bar>x\<bar>))"

text \<open>The direct sigmoid cross-entropy of the specification.\<close>

definition spec_direct_bce :: "real \<Rightarrow> real \<Rightarrow> real" where
  "spec_direct_bce x t = - t * ln (sigmoid x) - (1 - t) * ln (1 - sigmoid x)"

section \<open>The trainer: \<open>train\<close> (train.py)\<close>

subsection \<open>Target construction\<close>

text \<open>
  \<^verbatim>\<open>
  y_multihot = torch.LongTensor(args.batch_size, len(data.e_to_index))
  for s, r, os in progress_bar:
      ...
      if s.size()[0] != args.batch_size:
          y_multihot = torch.LongTensor(s.size()[0], len(data.e_to_index))

      y_multihot.zero_()
      y_multihot = y_multihot.scatter_(1, os, 1)
      y_smooth = (1 - args.label_smooth) * y_multihot.float() + args.label_smooth / len(data.e_to_index)
  \<close>
  \<open>torch.LongTensor(rows, cols)\<close> allocates without initialising: the contents are
  whatever the memory held, given here by a function \<open>junk\<close> of the position.
  \<open>zero_inplace\<close> and \<open>scatter_inplace\<close> are \<open>zero_\<close> and \<open>scatter_\<close>; the model returns
  the tensor the call has updated.
\<close>

definition LongTensor :: "(nat \<Rightarrow> nat \<Rightarrow> int) \<Rightarrow> nat \<Rightarrow> nat \<Rightarrow> int list list" where
  "LongTensor junk rows cols = map (\<lambda>i. map (\<lambda>j. junk i j) [0..<cols]) [0..<rows]"

definition zero_inplace :: "int list list \<Rightarrow> int list list" where
  "zero_inplace y = map (map (\<lambda>_. 0)) y"

text \<open>
  \<open>self.scatter_(1, index, v)\<close>: \<open>self[i][index[i][j]] = v\<close> for every position \<open>(i, j)\<close>
  of \<open>index\<close>. torch rejects an index tensor with more rows than \<open>self\<close> and an index
  outside \<open>[0, self.size(1))\<close>; rows of \<open>self\<close> beyond those of \<open>index\<close> are left as they
  are.
\<close>

definition scatter_row :: "int list \<Rightarrow> int list \<Rightarrow> int \<Rightarrow> error + int list" where
  "scatter_row row idx v =
     (if list_all (\<lambda>k. 0 \<le> k \<and> k < int (length row)) idx
      then Inr (foldl (\<lambda>acc k. acc[nat k := v]) row idx)
      else Inl RuntimeError)"

definition scatter_inplace :: "int list list \<Rightarrow> int list list \<Rightarrow> int \<Rightarrow> error + int list list" where
  "scatter_inplace self index v =
     (if length self < length index then Inl RuntimeError
      else case sequence_err (map2 (\<lambda>row idx. scatter_row row idx v) self index) of
             Inl e \<Rightarrow> Inl e
           | Inr rows \<Rightarrow> Inr (rows @ drop (length index) self))"

text \<open>
  One pass through the loop body above: from the buffer \<open>y_multihot\<close> left by the
  previous batch, the number \<open>s_size\<close> of rows of \<open>s\<close> and the index tensor \<open>os\<close>, to the
  buffer after the batch and the smoothed targets \<open>y_smooth\<close>. \<open>num_entities\<close> is
  \<open>len(data.e_to_index)\<close>; Python raises \<open>ZeroDivisionError\<close> on a division by it when it
  is 0.
\<close>

definition train_targets ::
  "nat \<Rightarrow> nat \<Rightarrow> real \<Rightarrow> (nat \<Rightarrow> nat \<Rightarrow> int) \<Rightarrow> int list list \<Rightarrow> nat \<Rightarrow> int list list
   \<Rightarrow> error + int list list \<times> mat" where
  "train_targets batch_size num_entities label_smooth junk y_multihot s_size os =
     (let y1 = (if s_size \<noteq> batch_size then LongTensor junk s_size num_entities else y_multihot);
          y2 = zero_inplace y1
      in case scatter_inplace y2 os 1 of
           Inl e \<Rightarrow> Inl e
         | Inr y3 \<Rightarrow>
             if num_entities = 0 then Inl ZeroDivisionError
             else Inr (y3, map (map (\<lambda>v. (1 - label_smooth) * real_of_int v
                                          + label_smooth / real num_entities)) y3))"

subsection \<open>Moving average of the loss\<close>




section \<open>The evaluator: \<open>valid\<close> (train.py)\<close>

text \<open>
  \<^verbatim>\<open>
  ranks = list()
  for s, r, os in tqdm(iter(valid_set)):
      s, r = Variable(s).cuda(), Variable(r).cuda()
      output = ds_conv_e.test(s, r)

      for i in range(min(batch_size, s.size()[0])):
          _, top_indices = output[i].topk(output.size()[1])
          for o in os[i]:
              _, rank = (top_indices == o).max(dim=0)
              ranks.append(rank.data + 1)

  ranks_t = torch.FloatTensor(ranks)
  mr = ranks_t.mean()
  mrr = (1 / ranks_t).mean()
  \<close>
\<close>

subsection \<open>Library operations\<close>

text \<open>
  \<open>scores.topk(k)\<close> returns the indices of \<open>k\<close> largest elements, in descending order of
  their scores. How elements of equal score are ordered is left to the library, so the
  evaluator takes the operation as a parameter \<open>topk\<close>, and \<open>is_topk scores k ixs\<close> says
  that \<open>ixs\<close> is an index list the operation may return.
\<close>

definition is_topk :: "vec \<Rightarrow> nat \<Rightarrow> nat list \<Rightarrow> bool" where
  "is_topk scores k ixs \<longleftrightarrow>
     length ixs = k \<and> distinct ixs \<and> list_all (\<lambda>i. i < length scores) ixs
     \<and> sorted_wrt (\<lambda>i j. scores ! j \<le> scores ! i) ixs
     \<and> list_all (\<lambda>j. j \<in> set ixs \<or> list_all (\<lambda>i. scores ! j \<le> scores ! i) ixs)
                 [0..<length scores]"

text \<open>
  \<open>x.max(dim=0)\<close> on a vector returns the maximum and its index, the first one when the
  maximum occurs several times; it rejects an empty vector.
\<close>

definition argmax_first :: "nat list \<Rightarrow> nat" where
  "argmax_first xs = length (takeWhile (\<lambda>v. v \<noteq> Max (set xs)) xs)"

definition max_dim0 :: "nat list \<Rightarrow> error + nat \<times> nat" where
  "max_dim0 xs = (if xs = [] then Inl RuntimeError else Inr (Max (set xs), argmax_first xs))"

subsection \<open>Ranks\<close>

text \<open>\<open>top_indices == o\<close>: the vector with 1 where the index is \<open>obj\<close> and 0 elsewhere.\<close>

definition eq_mask :: "nat list \<Rightarrow> int \<Rightarrow> nat list" where
  "eq_mask top_indices obj = map (\<lambda>i. if int i = obj then 1 else 0) top_indices"

text \<open>The body of the innermost loop: the rank appended for the true object \<open>obj\<close> (\<open>o\<close> in the source).\<close>

definition rank_of :: "nat list \<Rightarrow> int \<Rightarrow> error + nat" where
  "rank_of top_indices obj =
     (case max_dim0 (eq_mask top_indices obj) of
        Inl e \<Rightarrow> Inl e
      | Inr (_, rank) \<Rightarrow> Inr (rank + 1))"

text \<open>The ranks appended for batch element \<open>i\<close>, whose scores are row \<open>i\<close> of \<open>output\<close>.\<close>

definition element_ranks ::
  "(vec \<Rightarrow> nat \<Rightarrow> nat list) \<Rightarrow> nat \<Rightarrow> vec \<Rightarrow> int list \<Rightarrow> error + nat list" where
  "element_ranks topk k row os_i =
     (let top_indices = topk row k in sequence_err (map (rank_of top_indices) os_i))"

text \<open>
  The ranks appended for one batch. \<open>output[i]\<close> and \<open>os[i]\<close> raise \<open>IndexError\<close> beyond the
  end of \<open>output\<close> and of \<open>os\<close>.
\<close>

definition batch_ranks ::
  "(vec \<Rightarrow> nat \<Rightarrow> nat list) \<Rightarrow> nat \<Rightarrow> mat \<Rightarrow> nat \<Rightarrow> int list list \<Rightarrow> error + nat list" where
  "batch_ranks topk batch_size output s_size os =
     (case sequence_err
             (map (\<lambda>i. if i < length output \<and> i < length os
                       then element_ranks topk (width output) (output ! i) (os ! i)
                       else Inl IndexError)
                  [0..<min batch_size s_size]) of
        Inl e \<Rightarrow> Inl e
      | Inr rs \<Rightarrow> Inr (concat rs))"

text \<open>
  The list \<open>ranks\<close> after the loop over the batches \<open>(s, r, os)\<close>. The scoring function is
  a parameter: \<open>valid\<close> passes \<open>ds_conv_e.test\<close>.
\<close>

fun valid_ranks ::
  "(vec \<Rightarrow> nat \<Rightarrow> nat list) \<Rightarrow> (int list \<Rightarrow> int list \<Rightarrow> error + mat) \<Rightarrow> nat
   \<Rightarrow> (int list \<times> int list \<times> int list list) list \<Rightarrow> error + nat list" where
  "valid_ranks topk score batch_size [] = Inr []"
| "valid_ranks topk score batch_size ((s, r, os) # batches) =
     (case score s r of Inl e \<Rightarrow> Inl e | Inr output \<Rightarrow>
      case batch_ranks topk batch_size output (length s) os of Inl e \<Rightarrow> Inl e | Inr rs \<Rightarrow>
      case valid_ranks topk score batch_size batches of Inl e \<Rightarrow> Inl e | Inr rest \<Rightarrow>
      Inr (rs @ rest))"

subsection \<open>Metrics\<close>

text \<open>\<open>mr\<close> and \<open>mrr\<close>, as logged, from the list \<open>ranks\<close>.\<close>

definition valid_metrics :: "nat list \<Rightarrow> real option \<times> real option" where
  "valid_metrics ranks =
     (let ranks_t = map real ranks
      in (mean ranks_t, mean (map (\<lambda>v. 1 / v) ranks_t)))"

definition valid ::
  "DSConvE \<Rightarrow> (vec \<Rightarrow> nat \<Rightarrow> nat list) \<Rightarrow> nat \<Rightarrow> (int list \<times> int list \<times> int list list) list
   \<Rightarrow> error + real option \<times> real option" where
  "valid ds_conv_e topk batch_size batches =
     (case valid_ranks topk (DSConvE_test ds_conv_e) batch_size batches of
        Inl e \<Rightarrow> Inl e
      | Inr ranks \<Rightarrow> Inr (valid_metrics ranks))"

text \<open>The count the specification ranks by: the scores strictly above that of \<open>obj\<close>.\<close>

definition count_above :: "vec \<Rightarrow> nat \<Rightarrow> nat" where
  "count_above scores obj = length (filter (\<lambda>v. scores ! obj < v) scores)"

subsection \<open>Two ways \<open>topk\<close> may order equal scores\<close>

text \<open>
  Two implementations of \<open>scores.topk(k)\<close> that differ on equal scores only: among
  elements of equal score the first lists the lower index first, the second the higher
  index first. Both return indices in descending order of score. Which order the library
  takes is not fixed by its interface; the theorems below use them as instances of the
  parameter \<open>topk\<close>.
\<close>

definition topk_lowest_index_first :: "vec \<Rightarrow> nat \<Rightarrow> nat list" where
  "topk_lowest_index_first scores k = take k (sort_key (\<lambda>i. - scores ! i) [0..<length scores])"

definition topk_highest_index_first :: "vec \<Rightarrow> nat \<Rightarrow> nat list" where
  "topk_highest_index_first scores k = take k (rev (sort_key (\<lambda>i. scores ! i) [0..<length scores]))"

section \<open>Closed forms used in the proofs\<close>

text \<open>
  The element at \<open>(i, j)\<close> of the cross-correlation of a \<open>k \<times> k\<close> kernel with an
  image, and the tensor \<open>DSConv2d\<close> returns for one single-channel image of size
  \<open>a \<times> b\<close>. The lemmas \<open>corr2d_ok\<close> and \<open>DSConv2d_image_ok\<close> show that the layers of
  the model compute them.
\<close>

definition corr_at :: "nat \<Rightarrow> mat \<Rightarrow> mat \<Rightarrow> nat \<Rightarrow> nat \<Rightarrow> real" where
  "corr_at k ker img i j = (\<Sum>a<k. \<Sum>b<k. ker ! a ! b * img ! (i + a) ! (j + b))"

definition conv_out :: "DSConv2d \<Rightarrow> nat \<Rightarrow> nat \<Rightarrow> tensor3 \<Rightarrow> tensor3" where
  "conv_out m a b img =
     map (\<lambda>oc. map (\<lambda>i. map (\<lambda>j.
            pointwise_weight m ! oc ! 0
            * corr_at (kernel_size m) (depthwise_weight m ! 0) (img ! 0) i j)
          [0..<b + 1 - kernel_size m]) [0..<a + 1 - kernel_size m]) [0..<out_channels m]"

section \<open>A small instance\<close>

text \<open>
  A model with 2 entities, 1 relation, \<open>embedding_size_h = 2\<close>, \<open>embedding_size_w = 2\<close>,
  2 convolution channels and kernel size 2, on which the theorems below are exercised.
\<close>

definition example_model :: DSConvE where
  "example_model =
     \<lparr> num_e = 2, num_r = 1, embedding_size_h = 2, embedding_size_w = 2,
       embed_e = [[1, 0, 0, 1], [0, 1, 1, 0]],
       embed_r = [[1, 1, 0, 0]],
       conv = \<lparr> in_channels = 1, out_channels = 2, kernel_size = 2, padding = 0,
                depthwise_weight = [[[1, 0], [0, 1]]], pointwise_weight = [[1], [- 1]] \<rparr>,
       conv_bn = \<lparr> num_features = 2, bn_weight = [1, 1], bn_bias = [0, 0],
                   running_mean = [0, 0], running_var = [1, 1], bn_eps = 0 \<rparr>,
       proj = \<lparr> in_features = 6, out_features = 4,
                lin_weight = [[1, 0, 0, 0, 0, 0], [0, 1, 0, 0, 0, 0],
                              [0, 0, 1, 0, 0, 0], [0, 0, 0, 1, 0, 0]],
                lin_bias = [0, 0, 0, 1] \<rparr>,
       proj_bn = \<lparr> num_features = 4, bn_weight = [1, 1, 1, 1], bn_bias = [0, 0, 0, 0],
                   running_mean = [0, 0, 0, 0], running_var = [1, 1, 1, 1], bn_eps = 0 \<rparr> \<rparr>"

text \<open>
  Two variants of it, which differ in the entity table only. \<open>rank_model\<close> has four
  entities, with scores 3, 2, 1 and 0 for the query \<open>(0, 0)\<close>. \<open>tie_model\<close> has two
  entities with different embeddings and the same score, 3, for the query \<open>(0, 0)\<close>.
\<close>

definition rank_model :: DSConvE where
  "rank_model = example_model
     \<lparr> num_e := 4, embed_e := [[1, 0, 0, 1], [0, 1, 1, 0], [0, 0, 1, 0], [0, 0, 0, 0]] \<rparr>"

definition tie_model :: DSConvE where
  "tie_model = example_model \<lparr> embed_e := [[1, 0, 0, 1], [0, 1, 1, 1]] \<rparr>"

section \<open>Verified properties\<close>

subsection \<open>The small instance, evaluated\<close>

lemma ex_wf: "DSConvE_wf 2 2 example_model"
  by (simp add: DSConvE_wf_def example_model_def is_shape2_def is_shape3_def BatchNorm_wf_def
      flattened_size_def embedding_size_def)

lemma upt_num: "[m..<numeral n] = (if m < numeral n then m # [Suc m..<numeral n] else [])"
  by (rule upt_rec)

lemmas eval_defs = conv_input_def example_model_def Embedding_forward_def embedding_lookup_def
      view3_def chunks_def cat_dim1_def same_lengths_def unsqueeze1_def
      DSConv2d_forward_def DSConv2d_image_def depthwise_def pointwise_def corr2d_def pad2d_def
      height_def width_def ReLU4_def ReLU2_def relu_def BatchNorm2d_forward_def BatchNorm1d_forward_def
      bn_elem_def Flatten_forward_def Linear_forward_def dot_def mm_t_def conv_e_def
      DSConvE_forward_def DSConvE_test_def

lemma ex_conv: "DSConv2d_forward (conv example_model) [[[[1, 0], [0, 1], [1, 1], [0, 0]]]]
   = Inr [[[[2], [1], [1]], [[-2], [-1], [-1]]]]"
  by (simp add: eval_defs upt_num)

lemma ex_conv_e: "conv_e example_model [[[[1, 0], [0, 1], [1, 1], [0, 0]]]]
   = Inr [[2, 1, 1, 1]]"
  unfolding conv_e_def ex_conv
  by (simp add: eval_defs upt_num)

lemma ex_ci: "conv_input example_model [0] [0] = Inr [[[[1, 0], [0, 1], [1, 1], [0, 0]]]]"
  by (simp add: conv_input_def example_model_def Embedding_forward_def embedding_lookup_def
      view3_def chunks_def cat_dim1_def same_lengths_def unsqueeze1_def)

lemma ex_fw: "DSConvE_forward example_model [0] [0] = Inr [[3, 2]]"
proof -
  have e: "embed_e example_model = [[1, 0, 0, 1], [0, 1, 1, 0]]"
    by (simp add: example_model_def)
  show ?thesis
    by (simp add: DSConvE_forward_def ex_ci ex_conv_e e mm_t_def same_lengths_def dot_def)
qed

lemma ex_test: "DSConvE_test example_model [0] [0] = Inr [[sigmoid 3, sigmoid 2]]"
  by (simp add: DSConvE_test_def ex_fw)

subsection \<open>The loss\<close>

lemma ln_sigmoid: "ln (sigmoid x) = - ln (1 + exp (- x))"
proof -
  have "0 < 1 + exp (- x)" by (simp add: add_pos_pos)
  then show ?thesis unfolding sigmoid_def by (simp add: ln_div)
qed

lemma one_minus_sigmoid: "1 - sigmoid x = exp (- x) / (1 + exp (- x))"
proof -
  have "1 + exp (- x) \<noteq> 0"
    by (metis add_pos_pos exp_gt_zero less_numeral_extra(1) less_irrefl)
  then show ?thesis unfolding sigmoid_def by (simp add: field_simps)
qed

lemma ln_one_minus_sigmoid: "ln (1 - sigmoid x) = - x - ln (1 + exp (- x))"
proof -
  have p: "0 < 1 + exp (- x)" by (simp add: add_pos_pos)
  show ?thesis unfolding one_minus_sigmoid using p by (simp add: ln_div)
qed

lemma softplus_flip: "ln (1 + exp (- x)) = - x + ln (1 + exp (x::real))"
proof -
  have "1 + exp (- x) = exp (- x) * (1 + exp x)"
  proof -
    have e: "exp (- x) * exp x = 1" by (simp add: exp_minus)
    have "exp (- x) * (1 + exp x) = exp (- x) + exp (- x) * exp x"
      by (simp only: distrib_left mult_1_right)
    then show ?thesis unfolding e by simp
  qed
  moreover have "0 < 1 + exp x" by (simp add: add_pos_pos)
  ultimately show ?thesis by (simp add: ln_mult)
qed

lemma stable_eq_direct: "spec_elem_loss x t = spec_direct_bce x t"
proof (cases "0 \<le> x")
  case True
  then show ?thesis
    by (simp add: spec_elem_loss_def spec_direct_bce_def ln_sigmoid ln_one_minus_sigmoid
        algebra_simps)
next
  case False
  then have "x < 0" by simp
  then show ?thesis
    using softplus_flip [of x]
    by (simp add: spec_elem_loss_def spec_direct_bce_def ln_sigmoid ln_one_minus_sigmoid
        algebra_simps)
qed

lemma row_loss:
  "map2 (+) (map2 (-) (map (\<lambda>v. max v 0) xs) (map2 (*) xs ts))
            (map (\<lambda>v. ln (1 + exp (- \<bar>v\<bar>))) xs)
   = map2 spec_elem_loss xs ts"
proof (induction xs arbitrary: ts)
  case Nil
  show ?case by simp
next
  case (Cons x xs)
  show ?case
  proof (cases ts)
    case Nil
    then show ?thesis by simp
  next
    case (Cons t ts')
    then show ?thesis using Cons.IH [of ts'] by (simp add: spec_elem_loss_def)
  qed
qed

lemmas loss_ops_defs =
  StableBCELoss_loss_def t_add_def t_sub_def t_mul_def t_log_def scalar_add_def
  t_exp_def t_neg_def t_abs_def clamp_min_def

lemma StableBCELoss_loss_elementwise:
  "StableBCELoss_loss input target = map2 (map2 spec_elem_loss) input target"
proof (induction input arbitrary: target)
  case Nil
  show ?case by (simp add: loss_ops_defs)
next
  case (Cons xs input)
  show ?case
  proof (cases target)
    case Nil
    then show ?thesis by (simp add: loss_ops_defs)
  next
    case (Cons ts target')
    have "StableBCELoss_loss (xs # input) (ts # target')
          = map2 spec_elem_loss xs ts # StableBCELoss_loss input target'"
      using row_loss [of xs ts] by (simp add: loss_ops_defs o_def)
    then show ?thesis using Cons Cons.IH [of target'] by simp
  qed
qed

lemma sum_list_nth_lessThan: "sum_list xs = (\<Sum>j<length xs. (xs ! j :: real))"
  by (simp add: sum_list_sum_nth atLeast0LessThan)

lemma sum_list_concat_shape:
  "is_shape2 r c m \<Longrightarrow> sum_list (concat m) = (\<Sum>i<r. \<Sum>j<c. (m ! i ! j :: real))"
proof (induction m arbitrary: r)
  case Nil
  then show ?case by (simp add: is_shape2_def)
next
  case (Cons row m)
  then obtain r' where r: "r = Suc r'" and row: "length row = c" and m: "is_shape2 r' c m"
    by (auto simp: is_shape2_def)
  have a: "(\<Sum>i<Suc r'. \<Sum>j<c. (row # m) ! i ! j)
           = (\<Sum>j<c. row ! j) + (\<Sum>i<r'. \<Sum>j<c. m ! i ! j)"
    by (simp add: sum.lessThan_Suc_shift del: sum.lessThan_Suc)
  have b: "sum_list row = (\<Sum>j<c. row ! j)"
    using sum_list_nth_lessThan [of row] row by simp
  have "sum_list (concat (row # m)) = sum_list row + sum_list (concat m)" by simp
  then show ?case unfolding r a b Cons.IH [OF m] .
qed

lemma length_concat_shape: "is_shape2 r c m \<Longrightarrow> length (concat m) = r * c"
  by (induction m arbitrary: r) (auto simp: is_shape2_def)

lemma is_shape2_map2:
  "is_shape2 r c x \<Longrightarrow> is_shape2 r c t \<Longrightarrow> is_shape2 r c (map2 (map2 f) x t)"
  by (auto simp: is_shape2_def list_all_length)

lemma nth_map2_shape:
  "is_shape2 r c x \<Longrightarrow> is_shape2 r c t \<Longrightarrow> i < r \<Longrightarrow> j < c \<Longrightarrow>
   map2 (map2 f) x t ! i ! j = f (x ! i ! j) (t ! i ! j)"
  by (auto simp: is_shape2_def list_all_length)

text \<open>
  Claim C1. For a logit matrix \<open>x\<close> and a target matrix \<open>t\<close> of the same shape \<open>r \<times> c\<close>
  (with at least one element), the criterion returns the mean over all \<open>r * c\<close> elements
  of \<open>max(x,0) - x*t + log(1+exp(-|x|))\<close>.
\<close>

theorem StableBCELoss_forward_is_mean:
  assumes "is_shape2 r c x" "is_shape2 r c t" "0 < r * c"
  shows "StableBCELoss_forward x t
         = Some ((\<Sum>i<r. \<Sum>j<c. max (x ! i ! j) 0 - (x ! i ! j) * (t ! i ! j)
                                   + ln (1 + exp (- \<bar>x ! i ! j\<bar>))) / real (r * c))"
proof -
  let ?l = "map2 (map2 spec_elem_loss) x t"
  have sh: "is_shape2 r c ?l" using assms(1,2) by (rule is_shape2_map2)
  have len: "length (concat ?l) = r * c" using sh by (rule length_concat_shape)
  have "sum_list (concat ?l) = (\<Sum>i<r. \<Sum>j<c. ?l ! i ! j)"
    using sh by (rule sum_list_concat_shape)
  also have "\<dots> = (\<Sum>i<r. \<Sum>j<c. spec_elem_loss (x ! i ! j) (t ! i ! j))"
    by (intro sum.cong refl) (simp add: nth_map2_shape [OF assms(1,2)])
  finally have s: "sum_list (concat ?l)
                   = (\<Sum>i<r. \<Sum>j<c. spec_elem_loss (x ! i ! j) (t ! i ! j))" .
  have ne: "concat ?l \<noteq> []"
    using len assms(3) by (metis length_0_conv less_numeral_extra(3))
  have "StableBCELoss_forward x t
        = Some ((\<Sum>i<r. \<Sum>j<c. spec_elem_loss (x ! i ! j) (t ! i ! j)) / real (r * c))"
    unfolding StableBCELoss_forward_def StableBCELoss_loss_elementwise t_mean_def mean_def
    using ne s len by simp
  then show ?thesis unfolding spec_elem_loss_def .
qed

theorem StableBCELoss_forward_is_mean_witness:
  "is_shape2 1 2 [[0, 1 :: real]] \<and> is_shape2 1 2 [[1 / 2, 1 :: real]] \<and> (0::nat) < 1 * 2
   \<and> StableBCELoss_forward [[0, 1]] [[1 / 2, 1]] = Some ((ln 2 + ln (1 + exp (- 1))) / 2)"
proof -
  have sh: "is_shape2 1 2 [[0, 1 :: real]]" "is_shape2 1 2 [[1 / 2, 1 :: real]]"
    by (simp_all add: is_shape2_def)
  show ?thesis
    using StableBCELoss_forward_is_mean [OF sh] sh by (simp add: eval_nat_numeral)
qed

lemma softplus_bounds:
  "0 < ln (1 + exp (- \<bar>x::real\<bar>)) \<and> ln (1 + exp (- \<bar>x\<bar>)) \<le> ln 2"
proof -
  have "0 < exp (- \<bar>x\<bar>)" "exp (- \<bar>x\<bar>) \<le> 1" by simp_all
  then have b: "1 < 1 + exp (- \<bar>x\<bar>)" "1 + exp (- \<bar>x\<bar>) \<le> 2" by simp_all
  then have p: "0 < 1 + exp (- \<bar>x\<bar>)" by linarith
  have "ln (1 + exp (- \<bar>x\<bar>)) \<le> ln 2"
    using b(2) p ln_le_cancel_iff [of "1 + exp (- \<bar>x\<bar>)" 2] by simp
  moreover have "0 < ln (1 + exp (- \<bar>x\<bar>))" using b(1) by (rule ln_gt_zero)
  ultimately show ?thesis by simp
qed

lemma linear_part_bounds:
  assumes "0 \<le> t" "t \<le> 1"
  shows "0 \<le> max x 0 - x * t \<and> max x 0 - x * (t::real) \<le> \<bar>x\<bar>"
proof (cases "0 \<le> x")
  case True
  have "x * t \<le> x * 1" using True assms by (intro mult_left_mono) simp_all
  moreover have "0 \<le> x * t" using True assms by simp
  ultimately show ?thesis using True by simp
next
  case False
  then have neg: "x < 0" by simp
  have "x * 1 \<le> x * t" using neg assms by (intro mult_left_mono_neg) simp_all
  moreover have "x * t \<le> 0" using neg assms by (simp add: mult_nonpos_nonneg)
  ultimately show ?thesis using neg by simp
qed


lemma float32_max_plus_2: "v \<le> float32_max + 2 \<Longrightarrow> v < (2 - 1 / 2 ^ 24) * 2 ^ 127"
  by (simp add: float32_max_def)

lemma nth_map_shape:
  "is_shape2 r c x \<Longrightarrow> i < r \<Longrightarrow> j < c \<Longrightarrow> map (map f) x ! i ! j = f (x ! i ! j)"
  by (auto simp: is_shape2_def list_all_length)

lemma is_shape2_map: "is_shape2 r c x \<Longrightarrow> is_shape2 r c (map (map f) x)"
  by (auto simp: is_shape2_def list_all_length)

lemma intermediates_last:
  "last (StableBCELoss_intermediates x t) = StableBCELoss_loss x t"
  by (simp add: StableBCELoss_intermediates_def StableBCELoss_loss_def Let_def)

lemma intermediates_shape:
  assumes x: "is_shape2 r c x" and t: "is_shape2 r c t"
  shows "\<forall>T\<in>set (StableBCELoss_intermediates x t). is_shape2 r c T"
  unfolding StableBCELoss_intermediates_def Let_def t_abs_def t_neg_def clamp_min_def t_mul_def
    t_sub_def t_exp_def scalar_add_def t_log_def t_add_def
  by (simp add: is_shape2_map is_shape2_map2 x t)

lemma intermediates_nth:
  assumes x: "is_shape2 r c x" and t: "is_shape2 r c t" and i: "i < r" and j: "j < c"
  shows "map (\<lambda>T. T ! i ! j) (StableBCELoss_intermediates x t)
         = [\<bar>x ! i ! j\<bar>, - \<bar>x ! i ! j\<bar>, max (x ! i ! j) 0, x ! i ! j * t ! i ! j,
            max (x ! i ! j) 0 - x ! i ! j * t ! i ! j,
            exp (- \<bar>x ! i ! j\<bar>), 1 + exp (- \<bar>x ! i ! j\<bar>), ln (1 + exp (- \<bar>x ! i ! j\<bar>)),
            max (x ! i ! j) 0 - x ! i ! j * t ! i ! j + ln (1 + exp (- \<bar>x ! i ! j\<bar>))]"
proof -
  note m1 = nth_map_shape [OF x i j]
  note m2 = nth_map2_shape [where r = r and c = c, OF _ _ i j]
  show ?thesis
    unfolding StableBCELoss_intermediates_def Let_def t_abs_def t_neg_def clamp_min_def t_mul_def
      t_sub_def t_exp_def scalar_add_def t_log_def t_add_def
    by (simp add: m1 m2 is_shape2_map is_shape2_map2 x t)
qed

lemma ln2_le_1: "ln (2::real) \<le> 1"
  using ln_le_minus_one [of "2::real"] by simp

lemma elem_intermediates_bounded:
  assumes "0 \<le> u" "u \<le> 1"
  shows "\<forall>w\<in>set [\<bar>v\<bar>, - \<bar>v\<bar>, max v 0, v * u, max v 0 - v * u,
            exp (- \<bar>v\<bar>), 1 + exp (- \<bar>v\<bar>), ln (1 + exp (- \<bar>v\<bar>)),
            max v 0 - v * u + ln (1 + exp (- \<bar>v\<bar>))]. \<bar>w\<bar> \<le> \<bar>v::real\<bar> + 2"
proof -
  have vu: "\<bar>v * u\<bar> \<le> \<bar>v\<bar>"
  proof -
    have "\<bar>v * u\<bar> = \<bar>v\<bar> * u" using assms(1) by (simp add: abs_mult)
    also have "\<dots> \<le> \<bar>v\<bar> * 1" using assms(2) by (intro mult_left_mono) simp_all
    finally show ?thesis by simp
  qed
  have e: "0 < exp (- \<bar>v\<bar>)" "exp (- \<bar>v\<bar>) \<le> 1" by simp_all
  note lp = linear_part_bounds [OF assms, of v] and sp = softplus_bounds [of v] and l2 = ln2_le_1
  have "\<bar>max v 0\<bar> \<le> \<bar>v\<bar> + 2" by simp
  moreover have "\<bar>max v 0 - v * u\<bar> \<le> \<bar>v\<bar> + 2" using lp by linarith
  moreover have "\<bar>exp (- \<bar>v\<bar>)\<bar> \<le> \<bar>v\<bar> + 2" using e by linarith
  moreover have "\<bar>1 + exp (- \<bar>v\<bar>)\<bar> \<le> \<bar>v\<bar> + 2" using e by linarith
  moreover have "\<bar>ln (1 + exp (- \<bar>v\<bar>))\<bar> \<le> \<bar>v\<bar> + 2" using sp l2 by linarith
  moreover have "\<bar>max v 0 - v * u + ln (1 + exp (- \<bar>v\<bar>))\<bar> \<le> \<bar>v\<bar> + 2"
    using lp sp l2 by linarith
  moreover have "\<bar>v * u\<bar> \<le> \<bar>v\<bar> + 2" using vu by linarith
  ultimately show ?thesis by simp
qed

lemma intermediates_bounded:
  assumes x: "is_shape2 r c x" and t: "is_shape2 r c t" and i: "i < r" and j: "j < c"
    and u: "0 \<le> t ! i ! j" "t ! i ! j \<le> 1"
    and T: "T \<in> set (StableBCELoss_intermediates x t)"
  shows "\<bar>T ! i ! j\<bar> \<le> \<bar>x ! i ! j\<bar> + 2"
proof -
  have "T ! i ! j \<in> set (map (\<lambda>T. T ! i ! j) (StableBCELoss_intermediates x t))"
    using T by simp
  then show ?thesis
    unfolding intermediates_nth [OF x t i j]
    using elem_intermediates_bounded [OF u, of "x ! i ! j"] by blast
qed

text \<open>
  Claim C5. For logits and targets of the same shape, the loss tensor the criterion
  computes is, element by element, the direct sigmoid cross-entropy
  \<open>-t*log(sigmoid(x)) - (1-t)*log(1-sigmoid(x))\<close>. With the targets in \<open>[0,1]\<close>, every
  element of every tensor the forward pass computes on the way (the last of which is the
  loss) has magnitude at most \<open>|x| + 2\<close>, where \<open>x\<close> is the logit at that position: the
  exponential is taken of \<open>-|x|\<close> only. So for every logit that is a finite
  single-precision number, however large, each of these values is in the range that rounds
  to a finite number. The values are the exact ones; the rounding of the single operations
  is not modelled.
\<close>

theorem StableBCELoss_equals_direct_bce_in_range:
  assumes x: "is_shape2 r c x" and t: "is_shape2 r c t"
    and u: "\<forall>i<r. \<forall>j<c. 0 \<le> t ! i ! j \<and> t ! i ! j \<le> 1"
  shows "StableBCELoss_loss x t = map2 (map2 spec_direct_bce) x t
       \<and> (\<forall>i<r. \<forall>j<c. StableBCELoss_loss x t ! i ! j = spec_direct_bce (x ! i ! j) (t ! i ! j))
       \<and> last (StableBCELoss_intermediates x t) = StableBCELoss_loss x t
       \<and> (\<forall>T\<in>set (StableBCELoss_intermediates x t).
            is_shape2 r c T
            \<and> (\<forall>i<r. \<forall>j<c. \<bar>T ! i ! j\<bar> \<le> \<bar>x ! i ! j\<bar> + 2
                  \<and> (\<bar>x ! i ! j\<bar> \<le> float32_max \<longrightarrow> float32_finite (T ! i ! j))))"
proof -
  have eq: "spec_elem_loss = spec_direct_bce"
    by (intro ext) (rule stable_eq_direct)
  have a: "StableBCELoss_loss x t = map2 (map2 spec_direct_bce) x t"
    by (simp add: StableBCELoss_loss_elementwise eq)
  have b: "\<forall>i<r. \<forall>j<c. StableBCELoss_loss x t ! i ! j = spec_direct_bce (x ! i ! j) (t ! i ! j)"
    unfolding a using nth_map2_shape [OF x t] by blast
  have c: "\<bar>T ! i ! j\<bar> \<le> \<bar>x ! i ! j\<bar> + 2"
    if "T \<in> set (StableBCELoss_intermediates x t)" "i < r" "j < c" for T i j
    using intermediates_bounded [OF x t that(2,3) _ _ that(1)] u that(2,3) by blast
  have d: "float32_finite (T ! i ! j)"
    if "T \<in> set (StableBCELoss_intermediates x t)" "i < r" "j < c"
      "\<bar>x ! i ! j\<bar> \<le> float32_max" for T i j
  proof -
    have "\<bar>T ! i ! j\<bar> \<le> float32_max + 2" using c [OF that(1,2,3)] that(4) by linarith
    then show ?thesis unfolding float32_finite_def by (rule float32_max_plus_2)
  qed
  show ?thesis
    using a b intermediates_last [of x t] intermediates_shape [OF x t] c d by blast
qed

text \<open>
  The direct formula evaluates \<open>sigmoid(x) = 1 / (1 + exp(-x))\<close>; at \<open>x = -1000\<close> its
  first intermediate, \<open>exp(1000)\<close>, is outside that range.
\<close>

lemma exp_1000_not_finite: "\<not> float32_finite (exp (- (- 1000)))"
proof -
  have "(2::real) \<le> exp 1" using exp_ge_add_one_self [of "1::real"] by simp
  then have "(2::real) ^ 1000 \<le> exp 1 ^ 1000" by (intro power_mono) simp_all
  also have "exp (1::real) ^ 1000 = exp 1000"
    using exp_of_nat_mult [of 1000 "1::real"] by simp
  finally have "(2::real) ^ 1000 \<le> exp 1000" .
  moreover have "(2 - 1 / 2 ^ 24) * 2 ^ 127 < (2::real) ^ 1000" by simp
  ultimately show ?thesis by (simp add: float32_finite_def)
qed

theorem StableBCELoss_equals_direct_bce_in_range_witness:
  "StableBCELoss_loss [[1000, - 1000]] [[1 / 2, 1]]
     = [[spec_direct_bce 1000 (1 / 2), spec_direct_bce (- 1000) 1]]
   \<and> StableBCELoss_intermediates [[1000, - 1000]] [[1 / 2, 1]] ! 5
       = [[exp (- 1000), exp (- 1000)]]
   \<and> float32_finite (exp (- 1000))
   \<and> StableBCELoss_intermediates [[1000, - 1000]] [[1 / 2, 1]] ! 8
       = StableBCELoss_loss [[1000, - 1000]] [[1 / 2, 1]]
   \<and> float32_finite (StableBCELoss_loss [[1000, - 1000]] [[1 / 2, 1]] ! 0 ! 0)
   \<and> float32_finite (StableBCELoss_loss [[1000, - 1000]] [[1 / 2, 1]] ! 0 ! 1)
   \<and> \<bar>StableBCELoss_loss [[1000, - 1000]] [[1 / 2, 1]] ! 0 ! 1\<bar> \<le> 1000 + 2"
proof -
  let ?x = "[[1000, - 1000 :: real]]" and ?t = "[[1 / 2, 1 :: real]]"
  have sh: "is_shape2 1 2 ?x" "is_shape2 1 2 ?t"
    by (simp_all add: is_shape2_def)
  have u: "\<forall>i<1. \<forall>j<2. 0 \<le> ?t ! i ! j \<and> ?t ! i ! j \<le> 1"
    by (simp add: less_Suc_eq numeral_2_eq_2)
  have fm: "(1000::real) \<le> float32_max" by (simp add: float32_max_def)
  have i5: "StableBCELoss_intermediates ?x ?t ! 5 = [[exp (- 1000), exp (- 1000)]]"
    and i8: "StableBCELoss_intermediates ?x ?t ! 8 = StableBCELoss_loss ?x ?t"
    and len: "length (StableBCELoss_intermediates ?x ?t) = 9"
    by (simp_all add: StableBCELoss_intermediates_def StableBCELoss_loss_def Let_def
        t_abs_def t_neg_def t_exp_def)
  have m5: "StableBCELoss_intermediates ?x ?t ! 5 \<in> set (StableBCELoss_intermediates ?x ?t)"
    and m8: "StableBCELoss_intermediates ?x ?t ! 8 \<in> set (StableBCELoss_intermediates ?x ?t)"
    using len by (simp_all add: nth_mem)
  note th = StableBCELoss_equals_direct_bce_in_range [OF sh u]
  have eq: "StableBCELoss_loss ?x ?t = [[spec_direct_bce 1000 (1 / 2), spec_direct_bce (- 1000) 1]]"
    using th by simp
  have b: "\<forall>T\<in>set (StableBCELoss_intermediates ?x ?t).
            \<forall>i<1. \<forall>j<2. \<bar>T ! i ! j\<bar> \<le> \<bar>?x ! i ! j\<bar> + 2
                  \<and> (\<bar>?x ! i ! j\<bar> \<le> float32_max \<longrightarrow> float32_finite (T ! i ! j))"
    using th by blast
  have "float32_finite (exp (- 1000))"
    using b [rule_format, OF m5, of 0 0] fm unfolding i5 by simp
  moreover have "float32_finite (StableBCELoss_loss ?x ?t ! 0 ! 0)"
    using b [rule_format, OF m8, of 0 0] fm unfolding i8 by simp
  moreover have "float32_finite (StableBCELoss_loss ?x ?t ! 0 ! 1)
                 \<and> \<bar>StableBCELoss_loss ?x ?t ! 0 ! 1\<bar> \<le> 1000 + 2"
    using b [rule_format, OF m8, of 0 1] fm unfolding i8 by simp
  ultimately show ?thesis using eq i5 i8 by blast
qed

subsection \<open>Embedding lookup\<close>

lemma sequence_err_all_ok:
  "\<forall>x\<in>set xs. f x = Inr (g x) \<Longrightarrow> sequence_err (map f xs) = Inr (map g xs)"
  by (induction xs) auto

lemma sequence_err_fails:
  "\<exists>x\<in>set xs. f x = Inl e \<Longrightarrow> \<forall>x\<in>set xs. f x = Inl e \<or> (\<exists>v. f x = Inr v) \<Longrightarrow>
   sequence_err (map f xs) = Inl e"
proof (induction xs)
  case Nil
  then show ?case by simp
next
  case (Cons x xs)
  show ?case
  proof (cases "f x")
    case (Inl a)
    then show ?thesis using Cons.prems(2) by auto
  next
    case (Inr v)
    then have "\<exists>y\<in>set xs. f y = Inl e" using Cons.prems(1) by auto
    then have "sequence_err (map f xs) = Inl e" using Cons.IH Cons.prems(2) by auto
    then show ?thesis using Inr by simp
  qed
qed

lemma Embedding_forward_ok:
  "\<forall>i\<in>set idx. 0 \<le> i \<and> i < int (length weight) \<Longrightarrow>
   Embedding_forward weight idx = Inr (map (\<lambda>i. weight ! nat i) idx)"
  unfolding Embedding_forward_def
  by (rule sequence_err_all_ok) (simp add: embedding_lookup_def)

lemma Embedding_forward_fails:
  "\<exists>i\<in>set idx. \<not> (0 \<le> i \<and> i < int (length weight)) \<Longrightarrow>
   Embedding_forward weight idx = Inl IndexError"
  unfolding Embedding_forward_def
  by (rule sequence_err_fails) (auto simp: embedding_lookup_def)

lemma wf_embed_e: "DSConvE_wf C k m \<Longrightarrow>
  is_shape2 (num_e m) (embedding_size_h m * embedding_size_w m) (embed_e m)"
  by (simp add: DSConvE_wf_def embedding_size_def)

lemma wf_embed_r: "DSConvE_wf C k m \<Longrightarrow>
  is_shape2 (num_r m) (embedding_size_h m * embedding_size_w m) (embed_r m)"
  by (simp add: DSConvE_wf_def embedding_size_def)

lemma is_shape2_length: "is_shape2 r c m \<Longrightarrow> length m = r"
  by (simp add: is_shape2_def)

lemma is_shape2_row: "is_shape2 r c m \<Longrightarrow> i < r \<Longrightarrow> length (m ! i) = c"
  by (simp add: is_shape2_def list_all_length)

lemma conv_input_bad_s:
  assumes "is_shape2 n d (embed_e m)" "\<exists>i\<in>set s. \<not> (0 \<le> i \<and> i < int n)"
  shows "conv_input m s r = Inl IndexError"
proof -
  have "Embedding_forward (embed_e m) s = Inl IndexError"
    using assms by (intro Embedding_forward_fails) (simp add: is_shape2_def)
  then show ?thesis by (simp add: conv_input_def)
qed

lemma conv_input_bad_r:
  assumes "is_shape2 n d (embed_e m)" "\<forall>i\<in>set s. 0 \<le> i \<and> i < int n"
    and "is_shape2 n' d' (embed_r m)" "\<exists>j\<in>set r. \<not> (0 \<le> j \<and> j < int n')"
  shows "conv_input m s r = Inl IndexError"
proof -
  have "Embedding_forward (embed_e m) s = Inr (map (\<lambda>i. embed_e m ! nat i) s)"
    using assms(1,2) by (intro Embedding_forward_ok) (simp add: is_shape2_def)
  moreover have "Embedding_forward (embed_r m) r = Inl IndexError"
    using assms(3,4) by (intro Embedding_forward_fails) (simp add: is_shape2_def)
  ultimately show ?thesis by (simp add: conv_input_def)
qed

subsection \<open>Reshape and stack\<close>

lemma chunks_append:
  assumes "length xs = n" "0 < n"
  shows "chunks n (xs @ ys) = xs # chunks n ys"
proof -
  have d: "length (xs @ ys) div n = Suc (length ys div n)"
    using assms by simp
  have "map (\<lambda>i. take n (drop (i * n) (xs @ ys))) [0..<Suc (length ys div n)]
        = take n (xs @ ys) # map (\<lambda>i. take n (drop (Suc i * n) (xs @ ys))) [0..<length ys div n]"
    by (simp add: upt_conv_Cons map_Suc_upt [symmetric] del: upt_Suc)
  also have "\<dots> = xs # map (\<lambda>i. take n (drop (i * n) ys)) [0..<length ys div n]"
    using assms by simp
  finally show ?thesis unfolding chunks_def d .
qed

lemma chunks_Nil: "chunks n [] = []"
  by (simp add: chunks_def)

lemma chunks_concat:
  "0 < n \<Longrightarrow> list_all (\<lambda>row. length row = n) rows \<Longrightarrow> chunks n (concat rows) = rows"
  by (induction rows) (simp_all add: chunks_Nil chunks_append)

lemma length_chunks: "length (chunks n xs) = length xs div n"
  by (simp add: chunks_def)

lemma chunks_nth:
  assumes "i < length xs div n"
  shows "chunks n xs ! i = take n (drop (i * n) xs)"
  using assms by (simp add: chunks_def)

lemma chunk_bound:
  assumes "i < a" shows "i * b + b \<le> a * (b::nat)"
proof -
  have "Suc i \<le> a" using assms by simp
  then have "Suc i * b \<le> a * b" by (rule mult_le_mono1)
  then show ?thesis by (simp add: add.commute)
qed

lemma chunks_row:
  assumes "length xs = a * b" "i < a" "0 < b"
  shows "length (chunks b xs ! i) = b" and "j < b \<Longrightarrow> chunks b xs ! i ! j = xs ! (i * b + j)"
proof -
  have i: "i < length xs div b" using assms by simp
  have le: "i * b + b \<le> length xs" using chunk_bound [OF assms(2), of b] assms(1) by simp
  show "length (chunks b xs ! i) = b" unfolding chunks_nth [OF i] using le by simp
  show "chunks b xs ! i ! j = xs ! (i * b + j)" if "j < b"
    unfolding chunks_nth [OF i] using le that by simp
qed

lemma chunks_shape:
  assumes "length xs = a * b" "0 < b"
  shows "is_shape2 a b (chunks b xs)"
  using assms chunks_row(1) [OF assms(1) _ assms(2)]
  by (simp add: is_shape2_def list_all_length length_chunks)

lemma view3_rows:
  assumes "is_shape2 n (h * w) x" "0 < n" "0 < h" "0 < w"
  shows "view3 w h x = Inr (map (chunks h) x)"
proof -
  have all: "list_all (\<lambda>row. length row = w * h) x"
    using assms(1) by (simp add: is_shape2_def mult.commute)
  have len: "length (concat x) = n * (w * h)"
    using assms(1)
    by (induction x arbitrary: n) (auto simp: is_shape2_def mult.commute)
  have "0 < length (concat x)" unfolding len using assms(2,3,4) by simp
  then have ne: "concat x \<noteq> []" by (metis length_greater_0_conv)
  have "chunks (w * h) (concat x) = x" using all assms(3,4) by (intro chunks_concat) simp_all
  then show ?thesis using ne len assms(3,4) by (simp add: view3_def Let_def)
qed

lemma same_lengths_all:
  "list_all (\<lambda>q. length q = h) rows \<Longrightarrow> same_lengths rows"
  by (cases rows) (auto simp: same_lengths_def list_all_iff)

lemma is_shape2_append:
  "is_shape2 a c x \<Longrightarrow> is_shape2 b c y \<Longrightarrow> is_shape2 (a + b) c (x @ y)"
  by (simp add: is_shape2_def)

lemma is_shape2_all_rows:
  "is_shape2 a c x \<Longrightarrow> list_all (\<lambda>q. length q = c) x"
  by (simp add: is_shape2_def)

lemma cat_dim1_ok:
  assumes "length a = length b"
    and "list_all (is_shape2 w h) a" "list_all (is_shape2 w h) b"
  shows "cat_dim1 a b = Inr (map2 (@) a b)"
proof -
  have "list_all (\<lambda>q. length q = h) (concat a @ concat b)"
    using assms(2,3) by (auto simp: list_all_iff is_shape2_def)
  then have "same_lengths (concat a @ concat b)" by (rule same_lengths_all)
  then show ?thesis using assms(1) by (simp add: cat_dim1_def)
qed

lemma view_Embedding:
  assumes e: "is_shape2 n (h * w) weight" and s: "\<forall>i\<in>set s. 0 \<le> i \<and> i < int n"
    and ne: "s \<noteq> []" and h: "0 < h" and w: "0 < w"
  shows "Embedding_forward weight s = Inr (map (\<lambda>i. weight ! nat i) s)"
    and "view3 w h (map (\<lambda>i. weight ! nat i) s) = Inr (map (\<lambda>i. chunks h (weight ! nat i)) s)"
    and "list_all (is_shape2 w h) (map (\<lambda>i. chunks h (weight ! nat i)) s)"
proof -
  have len: "length weight = n" using e by (rule is_shape2_length)
  show "Embedding_forward weight s = Inr (map (\<lambda>i. weight ! nat i) s)"
    using s len by (intro Embedding_forward_ok) simp
  have row: "length (weight ! nat i) = h * w" if "i \<in> set s" for i
  proof -
    have "nat i < n" using s that by auto
    then show ?thesis using e by (rule is_shape2_row [rotated])
  qed
  have sh: "is_shape2 (length s) (h * w) (map (\<lambda>i. weight ! nat i) s)"
    using row by (simp add: is_shape2_def list_all_iff)
  have "0 < length s" using ne by simp
  from view3_rows [OF sh this h w]
  show "view3 w h (map (\<lambda>i. weight ! nat i) s) = Inr (map (\<lambda>i. chunks h (weight ! nat i)) s)"
    by (simp add: o_def)
  have "is_shape2 w h (chunks h (weight ! nat i))" if "i \<in> set s" for i
    using row [OF that] h by (intro chunks_shape) (simp_all add: mult.commute)
  then show "list_all (is_shape2 w h) (map (\<lambda>i. chunks h (weight ! nat i)) s)"
    by (simp add: list_all_iff)
qed

lemma conv_input_value:
  assumes wf: "DSConvE_wf C k m"
    and s: "\<forall>i\<in>set s. 0 \<le> i \<and> i < int (num_e m)"
    and r: "\<forall>j\<in>set r. 0 \<le> j \<and> j < int (num_r m)"
    and len: "length r = length s" and ne: "s \<noteq> []"
    and h: "0 < embedding_size_h m" and w: "0 < embedding_size_w m"
  shows "conv_input m s r
         = Inr (map2 (\<lambda>i j. [chunks (embedding_size_h m) (embed_e m ! nat i)
                              @ chunks (embedding_size_h m) (embed_r m ! nat j)]) s r)"
proof -
  have rne: "r \<noteq> []" using len ne by auto
  note E = view_Embedding [OF wf_embed_e [OF wf] s ne h w]
  note R = view_Embedding [OF wf_embed_r [OF wf] r rne h w]
  have cat: "cat_dim1 (map (\<lambda>i. chunks (embedding_size_h m) (embed_e m ! nat i)) s)
                      (map (\<lambda>i. chunks (embedding_size_h m) (embed_r m ! nat i)) r)
             = Inr (map2 (@) (map (\<lambda>i. chunks (embedding_size_h m) (embed_e m ! nat i)) s)
                             (map (\<lambda>i. chunks (embedding_size_h m) (embed_r m ! nat i)) r))"
    using E(3) R(3) len by (intro cat_dim1_ok) simp_all
  have "map (\<lambda>img. [img]) (map2 (@) (map (\<lambda>i. chunks (embedding_size_h m) (embed_e m ! nat i)) s)
                             (map (\<lambda>i. chunks (embedding_size_h m) (embed_r m ! nat i)) r))
        = map2 (\<lambda>i j. [chunks (embedding_size_h m) (embed_e m ! nat i)
                              @ chunks (embedding_size_h m) (embed_r m ! nat j)]) s r"
    by (auto simp: zip_map_map)
  then show ?thesis
    by (simp add: conv_input_def E(1,2) R(1,2) cat unsqueeze1_def)
qed

text \<open>
  Claim C7. In a model built by \<open>__init__\<close> with \<open>H, W > 0\<close>, for subject and relation
  index batches of the same size \<open>batch \<ge> 1\<close> whose indices are in range, the
  reshape-and-stack step succeeds and yields a tensor of shape \<open>(batch, 1, 2W, H)\<close>. In its
  single channel, row \<open>i < W\<close> is block \<open>i\<close> of the subject embedding (elements
  \<open>i*H .. i*H + H - 1\<close>: the row-major \<open>(W, H)\<close> grid), and row \<open>W + i\<close> is block \<open>i\<close> of the
  relation embedding.
\<close>

theorem conv_input_shape_and_content:
  assumes wf: "DSConvE_wf C k m"
    and s: "\<forall>i\<in>set s. 0 \<le> i \<and> i < int (num_e m)"
    and r: "\<forall>j\<in>set r. 0 \<le> j \<and> j < int (num_r m)"
    and len: "length r = length s" and ne: "1 \<le> length s"
    and h: "0 < embedding_size_h m" and w: "0 < embedding_size_w m"
  shows "\<exists>ci. conv_input m s r = Inr ci
           \<and> is_shape4 (length s) 1 (2 * embedding_size_w m) (embedding_size_h m) ci
           \<and> (\<forall>b<length s. \<forall>i<2 * embedding_size_w m. \<forall>j<embedding_size_h m.
                 ci ! b ! 0 ! i ! j
                 = (if i < embedding_size_w m
                    then embed_e m ! nat (s ! b) ! (i * embedding_size_h m + j)
                    else embed_r m ! nat (r ! b)
                           ! ((i - embedding_size_w m) * embedding_size_h m + j)))"
proof -
  define H W where "H = embedding_size_h m" and "W = embedding_size_w m"
  define ci where "ci = map2 (\<lambda>i j. [chunks H (embed_e m ! nat i) @ chunks H (embed_r m ! nat j)]) s r"
  have sne: "s \<noteq> []" using ne by auto
  have val: "conv_input m s r = Inr ci"
    unfolding ci_def H_def by (rule conv_input_value [OF wf s r len sne h w])
  have erow: "length (embed_e m ! nat (s ! b)) = W * H" if "b < length s" for b
  proof -
    have "s ! b \<in> set s" using that by simp
    then have "nat (s ! b) < num_e m" using s by auto
    then show ?thesis
      using wf_embed_e [OF wf] unfolding H_def W_def
      by (simp add: is_shape2_row mult.commute)
  qed
  have rrow: "length (embed_r m ! nat (r ! b)) = W * H" if "b < length s" for b
  proof -
    have "r ! b \<in> set r" using that len by simp
    then have "nat (r ! b) < num_r m" using r by auto
    then show ?thesis
      using wf_embed_r [OF wf] unfolding H_def W_def
      by (simp add: is_shape2_row mult.commute)
  qed
  have H0: "0 < H" using h by (simp add: H_def)
  have nth: "ci ! b = [chunks H (embed_e m ! nat (s ! b)) @ chunks H (embed_r m ! nat (r ! b))]"
    if "b < length s" for b
    using that len by (simp add: ci_def)
  have img: "is_shape2 (2 * W) H (chunks H (embed_e m ! nat (s ! b)) @ chunks H (embed_r m ! nat (r ! b)))"
    if "b < length s" for b
    using is_shape2_append [OF chunks_shape [OF erow [OF that] H0] chunks_shape [OF rrow [OF that] H0]]
    by (simp add: mult_2)
  have shape: "is_shape4 (length s) 1 (2 * W) H ci"
    using img nth len
    by (simp add: is_shape4_def is_shape3_def list_all_length ci_def)
  have elem: "ci ! b ! 0 ! i ! j
              = (if i < W then embed_e m ! nat (s ! b) ! (i * H + j)
                 else embed_r m ! nat (r ! b) ! ((i - W) * H + j))"
    if b: "b < length s" and i: "i < 2 * W" and j: "j < H" for b i j
  proof -
    have le: "length (chunks H (embed_e m ! nat (s ! b))) = W"
      using erow [OF b] H0 by (simp add: length_chunks)
    show ?thesis
    proof (cases "i < W")
      case True
      then show ?thesis
        using chunks_row(2) [OF erow [OF b] True H0 j] le by (simp add: nth [OF b] nth_append)
    next
      case False
      then have "i - W < W" using i by simp
      then show ?thesis
        using chunks_row(2) [OF rrow [OF b] _ H0 j] le False by (simp add: nth [OF b] nth_append)
    qed
  qed
  show ?thesis
    using val shape elem unfolding H_def W_def by blast
qed

theorem conv_input_shape_and_content_witness:
  "DSConvE_wf 2 2 example_model
   \<and> (\<exists>ci. conv_input example_model [0] [0] = Inr ci \<and> is_shape4 1 1 4 2 ci
         \<and> ci ! 0 ! 0 ! 1 ! 1 = embed_e example_model ! 0 ! 3
         \<and> ci ! 0 ! 0 ! 2 ! 1 = embed_r example_model ! 0 ! 1)
   \<and> conv_input example_model [0] [0] = Inr [[[[1, 0], [0, 1], [1, 1], [0, 0]]]]"
proof -
  have m: "embedding_size_h example_model = 2" "embedding_size_w example_model = 2"
    "num_e example_model = 2" "num_r example_model = 1"
    by (simp_all add: example_model_def)
  obtain ci where ci: "conv_input example_model [0] [0] = Inr ci" "is_shape4 1 1 4 2 ci"
    and el: "\<forall>b<1. \<forall>i<4. \<forall>j<2. ci ! b ! 0 ! i ! j
                 = (if i < 2 then embed_e example_model ! nat ([0] ! b) ! (i * 2 + j)
                    else embed_r example_model ! nat ([0] ! b) ! ((i - 2) * 2 + j))"
    using conv_input_shape_and_content [OF ex_wf, of "[0]" "[0]"] by (auto simp: m)
  have "ci ! 0 ! 0 ! 1 ! 1 = embed_e example_model ! 0 ! 3"
    using el [rule_format, of 0 1 1] by simp
  moreover have "ci ! 0 ! 0 ! 2 ! 1 = embed_r example_model ! 0 ! 1"
    using el [rule_format, of 0 2 1] by simp
  ultimately show ?thesis using ci ex_wf ex_ci by blast
qed

subsection \<open>The convolution stage\<close>

lemma pad2d_zero: "pad2d 0 img = img"
  by (simp add: pad2d_def Let_def map_idI)

lemma sum_list_upt: "sum_list (map f [0..<n]) = (\<Sum>a<n. (f a :: real))"
  by (simp add: sum_list_sum_nth atLeast0LessThan)

lemma width_shape: "is_shape2 a b img \<Longrightarrow> 0 < a \<Longrightarrow> width img = b"
  by (cases img) (auto simp: width_def is_shape2_def)

lemma height_shape: "is_shape2 a b img \<Longrightarrow> height img = a"
  by (simp add: height_def is_shape2_def)

lemma corr2d_ok:
  assumes img: "is_shape2 a b img" and ker: "length ker = k"
    and k: "0 < k" "k \<le> a" "k \<le> b"
  shows "corr2d ker img
         = Inr (map (\<lambda>i. map (\<lambda>j. corr_at k ker img i j) [0..<b + 1 - k]) [0..<a + 1 - k])"
proof -
  have a: "0 < a" using k by simp
  show ?thesis
    using k ker
    by (simp add: corr2d_def Let_def width_shape [OF img a] height_shape [OF img]
        corr_at_def sum_list_upt)
qed

lemma single_channel: "length img = Suc 0 \<Longrightarrow> img = [img ! 0]"
  by (cases img) auto

lemma DSConv2d_image_ok:
  assumes m: "in_channels m = 1" "padding m = 0" "length (depthwise_weight m ! 0) = kernel_size m"
    and img: "is_shape3 1 a b img"
    and k: "0 < kernel_size m" "kernel_size m \<le> a" "kernel_size m \<le> b"
  shows "DSConv2d_image m img = Inr (conv_out m a b img)"
proof -
  define k where "k = kernel_size m"
  define d where "d = map (\<lambda>i. map (\<lambda>j. corr_at k (depthwise_weight m ! 0) (img ! 0) i j)
                                 [0..<b + 1 - k]) [0..<a + 1 - k]"
  have len: "length img = Suc 0" and ch: "is_shape2 a b (img ! 0)"
    using img by (simp_all add: is_shape3_def list_all_length)
  have c: "corr2d (depthwise_weight m ! 0) (img ! 0) = Inr d"
    unfolding d_def k_def using corr2d_ok [OF ch m(3) k] .
  have dw: "depthwise m img = Inr [d]"
    using len c by (simp add: depthwise_def m pad2d_zero)
  have dsh: "is_shape2 (a + 1 - k) (b + 1 - k) d"
    by (simp add: d_def is_shape2_def list_all_length)
  have pos: "0 < a + 1 - k" using k by (simp add: k_def)
  have wd: "width d = b + 1 - k" using width_shape [OF dsh pos] .
  have hd: "height d = a + 1 - k" using height_shape [OF dsh] .
  have "pointwise m [d]
        = Inr (map (\<lambda>oc. map (\<lambda>i. map (\<lambda>j. pointwise_weight m ! oc ! 0 * d ! i ! j)
                 [0..<b + 1 - k]) [0..<a + 1 - k]) [0..<out_channels m])"
    by (simp add: pointwise_def m wd hd)
  also have "map (\<lambda>oc. map (\<lambda>i. map (\<lambda>j. pointwise_weight m ! oc ! 0 * d ! i ! j)
                 [0..<b + 1 - k]) [0..<a + 1 - k]) [0..<out_channels m] = conv_out m a b img"
    unfolding conv_out_def k_def [symmetric] by (simp add: d_def)
  finally show ?thesis by (simp add: DSConv2d_image_def dw)
qed

lemma conv_out_shape: "is_shape3 (out_channels m) (a + 1 - kernel_size m) (b + 1 - kernel_size m)
                         (conv_out m a b img)"
  by (simp add: conv_out_def is_shape3_def is_shape2_def list_all_length)

lemma conv_out_nth:
  "oc < out_channels m \<Longrightarrow> i < a + 1 - kernel_size m \<Longrightarrow> j < b + 1 - kernel_size m \<Longrightarrow>
   conv_out m a b img ! oc ! i ! j
   = pointwise_weight m ! oc ! 0 * corr_at (kernel_size m) (depthwise_weight m ! 0) (img ! 0) i j"
  by (simp add: conv_out_def)

lemma DSConv2d_forward_ok:
  assumes m: "in_channels m = 1" "padding m = 0" "length (depthwise_weight m ! 0) = kernel_size m"
    and x: "is_shape4 n 1 a b x"
    and k: "0 < kernel_size m" "kernel_size m \<le> a" "kernel_size m \<le> b"
  shows "DSConv2d_forward m x = Inr (map (conv_out m a b) x)"
  unfolding DSConv2d_forward_def
proof (rule sequence_err_all_ok, rule ballI)
  fix img assume "img \<in> set x"
  then have "is_shape3 1 a b img" using x by (simp add: is_shape4_def list_all_iff)
  then show "DSConv2d_image m img = Inr (conv_out m a b img)"
    by (rule DSConv2d_image_ok [OF m _ k])
qed

lemma is_shape4_nth: "is_shape4 n a b c x \<Longrightarrow> i < n \<Longrightarrow> is_shape3 a b c (x ! i)"
  by (simp add: is_shape4_def list_all_length)

lemma is_shape3_nth: "is_shape3 a b c x \<Longrightarrow> i < a \<Longrightarrow> is_shape2 b c (x ! i)"
  by (simp add: is_shape3_def list_all_length)

lemma ReLU4_shape: "is_shape4 n a b c x \<Longrightarrow> is_shape4 n a b c (ReLU4 x)"
  by (simp add: ReLU4_def is_shape4_def is_shape3_def is_shape2_def list_all_length)

lemma BatchNorm2d_ok:
  assumes "is_shape4 n a b c x" "num_features bn = a"
  shows "\<exists>y. BatchNorm2d_forward bn x = Inr y \<and> is_shape4 n a b c y"
proof -
  have "\<not> list_ex (\<lambda>img. length img \<noteq> num_features bn) x"
    using assms by (auto simp: list_ex_iff is_shape4_def is_shape3_def list_all_iff)
  moreover have "is_shape4 n a b c
        (map (\<lambda>img. map (\<lambda>ch. map (map (bn_elem bn ch)) (img ! ch)) [0..<length img]) x)"
    using assms(1)
    by (simp add: is_shape4_def is_shape3_def is_shape2_def list_all_length)
  ultimately show ?thesis by (simp add: BatchNorm2d_forward_def)
qed

lemma concat_shape3: "is_shape3 a b c t \<Longrightarrow> is_shape2 (a * b) c (concat t)"
proof (induction t arbitrary: a)
  case Nil
  then show ?case by (simp add: is_shape3_def is_shape2_def)
next
  case (Cons x t)
  then obtain a' where a: "a = Suc a'" and x: "is_shape2 b c x" and t: "is_shape3 a' b c t"
    by (auto simp: is_shape3_def)
  have "is_shape2 (b + a' * b) c (x @ concat t)"
    using x Cons.IH [OF t] by (simp add: is_shape2_def)
  then show ?case by (simp add: a)
qed

lemma length_flat3: "is_shape3 a b c t \<Longrightarrow> length (concat (concat t)) = a * b * c"
  using length_concat_shape [OF concat_shape3] .

lemma Flatten_ok:
  assumes "is_shape4 n a b c x" "0 < n" "0 < a * b * c"
  shows "\<exists>f. Flatten_forward x = Inr f \<and> is_shape2 n (a * b * c) f"
proof -
  have rows: "length (concat (concat img)) = a * b * c" if "img \<in> set x" for img
    using that assms(1) by (intro length_flat3) (simp add: is_shape4_def list_all_iff)
  have f: "is_shape2 n (a * b * c) (map (\<lambda>img. concat (concat img)) x)"
    using rows assms(1) by (simp add: is_shape2_def is_shape4_def list_all_iff)
  have "concat (map (\<lambda>img. concat (concat img)) x) \<noteq> []"
  proof -
    have "length (concat (map (\<lambda>img. concat (concat img)) x)) = n * (a * b * c)"
      using f by (rule length_concat_shape)
    then have "0 < length (concat (map (\<lambda>img. concat (concat img)) x))"
      using assms(2,3) by simp
    then show ?thesis by (metis length_greater_0_conv)
  qed
  moreover have "concat (concat (concat x)) = concat (map (\<lambda>img. concat (concat img)) x)"
    by (induction x) simp_all
  ultimately show ?thesis using f by (simp add: Flatten_forward_def)
qed

lemma Linear_ok:
  assumes "is_shape2 n d x" "in_features lin = d"
  shows "\<exists>y. Linear_forward lin x = Inr y \<and> is_shape2 n (out_features lin) y"
proof -
  have "\<not> list_ex (\<lambda>row. length row \<noteq> in_features lin) x"
    using assms by (auto simp: list_ex_iff is_shape2_def list_all_iff)
  then show ?thesis
    using assms(1) by (simp add: Linear_forward_def is_shape2_def list_all_length)
qed

lemma ReLU2_shape: "is_shape2 n d x \<Longrightarrow> is_shape2 n d (ReLU2 x)"
  by (simp add: ReLU2_def is_shape2_def list_all_length)

lemma BatchNorm1d_ok:
  assumes "is_shape2 n d x" "num_features bn = d"
  shows "\<exists>y. BatchNorm1d_forward bn x = Inr y \<and> is_shape2 n d y"
proof -
  have "\<not> list_ex (\<lambda>row. length row \<noteq> num_features bn) x"
    using assms by (auto simp: list_ex_iff is_shape2_def list_all_iff)
  then show ?thesis
    using assms(1) by (simp add: BatchNorm1d_forward_def is_shape2_def list_all_length)
qed

lemma flattened_size_nat:
  assumes "k \<le> h" "k \<le> 2 * w"
  shows "flattened_size h w c k = int (c * (2 * w - k + 1) * (h - k + 1))"
proof -
  have a: "int (2 * w - k + 1) = int w * 2 - int k + 1"
    using assms(2) by (simp add: of_nat_diff)
  have b: "int (h - k + 1) = int h - int k + 1"
    using assms(1) by (simp add: of_nat_diff)
  have "int (c * (2 * w - k + 1) * (h - k + 1))
        = int c * int (2 * w - k + 1) * int (h - k + 1)"
    by (simp only: of_nat_mult)
  then show ?thesis unfolding a b flattened_size_def by (simp add: mult.commute mult.left_commute)
qed

lemma DSConv2d_forward_wf:
  assumes wf: "DSConvE_wf C k m"
    and x: "is_shape4 n 1 (2 * embedding_size_w m) (embedding_size_h m) x"
    and k: "1 \<le> k" "k \<le> 2 * embedding_size_w m" "k \<le> embedding_size_h m"
  shows "\<exists>c. DSConv2d_forward (conv m) x = Inr c
           \<and> is_shape4 n C (2 * embedding_size_w m - k + 1) (embedding_size_h m - k + 1) c
           \<and> (\<forall>b<n. \<forall>oc<C. \<forall>i<2 * embedding_size_w m - k + 1. \<forall>j<embedding_size_h m - k + 1.
                 c ! b ! oc ! i ! j
                 = pointwise_weight (conv m) ! oc ! 0
                   * (\<Sum>p<k. \<Sum>q<k. depthwise_weight (conv m) ! 0 ! p ! q
                                       * x ! b ! 0 ! (i + p) ! (j + q)))"
proof -
  define H W where "H = embedding_size_h m" and "W = embedding_size_w m"
  define A B where "A = 2 * W - k + 1" and "B = H - k + 1"
  have A: "2 * W + 1 - k = A" and B: "H + 1 - k = B"
    using k by (simp_all add: A_def B_def H_def W_def)
  have cm: "in_channels (conv m) = 1" "padding (conv m) = 0" "out_channels (conv m) = C"
    "kernel_size (conv m) = k"
    using wf by (simp_all add: DSConvE_wf_def)
  have dw: "length (depthwise_weight (conv m) ! 0) = kernel_size (conv m)"
    using wf by (simp add: DSConvE_wf_def is_shape3_def is_shape2_def list_all_length)
  have kk: "0 < kernel_size (conv m)" "kernel_size (conv m) \<le> 2 * W" "kernel_size (conv m) \<le> H"
    using k cm by (simp_all add: H_def W_def)
  define c where "c = map (conv_out (conv m) (2 * W) H) x"
  have conv: "DSConv2d_forward (conv m) x = Inr c"
    unfolding c_def using x by (intro DSConv2d_forward_ok [OF cm(1,2) dw _ kk]) (simp add: H_def W_def)
  have len: "length x = n" using x by (simp add: is_shape4_def)
  have sh1: "is_shape3 C A B (conv_out (conv m) (2 * W) H img)" for img
    using conv_out_shape [of "conv m" "2 * W" H img] unfolding cm A B .
  have csh: "is_shape4 n C A B c"
    using sh1 len by (simp add: c_def is_shape4_def list_all_iff)
  have cel: "c ! b ! oc ! i ! j
             = pointwise_weight (conv m) ! oc ! 0
               * (\<Sum>p<k. \<Sum>q<k. depthwise_weight (conv m) ! 0 ! p ! q * x ! b ! 0 ! (i + p) ! (j + q))"
    if "b < n" "oc < C" "i < A" "j < B" for b oc i j
  proof -
    have "conv_out (conv m) (2 * W) H (x ! b) ! oc ! i ! j
          = pointwise_weight (conv m) ! oc ! 0
            * corr_at k (depthwise_weight (conv m) ! 0) (x ! b ! 0) i j"
      using conv_out_nth [of oc "conv m" i "2 * W" j H "x ! b"] that(2,3,4)
      unfolding cm A B by simp
    then show ?thesis using that(1) len by (simp add: c_def corr_at_def)
  qed
  show ?thesis
    using conv csh cel unfolding A_def B_def H_def W_def by blast
qed

lemma in_features_flattened:
  assumes wf: "DSConvE_wf C k m"
    and k: "k \<le> 2 * embedding_size_w m" "k \<le> embedding_size_h m"
  shows "flattened_size (embedding_size_h m) (embedding_size_w m) C k
           = int (C * (2 * embedding_size_w m - k + 1) * (embedding_size_h m - k + 1))"
    and "in_features (proj m)
           = C * (2 * embedding_size_w m - k + 1) * (embedding_size_h m - k + 1)"
proof -
  show fs: "flattened_size (embedding_size_h m) (embedding_size_w m) C k
           = int (C * (2 * embedding_size_w m - k + 1) * (embedding_size_h m - k + 1))"
    using k by (intro flattened_size_nat)
  have "int (in_features (proj m)) = flattened_size (embedding_size_h m) (embedding_size_w m) C k"
    using wf by (simp add: DSConvE_wf_def)
  then have "int (in_features (proj m))
             = int (C * (2 * embedding_size_w m - k + 1) * (embedding_size_h m - k + 1))"
    using fs by (simp only:)
  then show "in_features (proj m)
           = C * (2 * embedding_size_w m - k + 1) * (embedding_size_h m - k + 1)"
    by (simp only: of_nat_eq_iff)
qed

lemma conv_e_ok:
  assumes wf: "DSConvE_wf C k m"
    and x: "is_shape4 n 1 (2 * embedding_size_w m) (embedding_size_h m) x"
    and n: "1 \<le> n" and C: "1 \<le> C"
    and k: "1 \<le> k" "k \<le> 2 * embedding_size_w m" "k \<le> embedding_size_h m"
  shows "\<exists>out. conv_e m x = Inr out
            \<and> is_shape2 n (embedding_size_h m * embedding_size_w m) out"
proof -
  define H W where "H = embedding_size_h m" and "W = embedding_size_w m"
  define A B where "A = 2 * W - k + 1" and "B = H - k + 1"
  obtain c where conv: "DSConv2d_forward (conv m) x = Inr c" and csh: "is_shape4 n C A B c"
    using DSConv2d_forward_wf [OF wf x k] unfolding A_def B_def H_def W_def by blast
  have pos: "0 < C * A * B" using C by (simp add: A_def B_def)
  have n0: "0 < n" using n by simp
  have inf: "in_features (proj m) = C * A * B"
    using in_features_flattened(2) [OF wf k(2,3)] unfolding A_def B_def H_def W_def .
  have outf: "out_features (proj m) = H * W"
    using wf by (simp add: DSConvE_wf_def embedding_size_def H_def W_def)
  have bn2: "num_features (conv_bn m) = C" and bn1: "num_features (proj_bn m) = H * W"
    using wf by (simp_all add: DSConvE_wf_def BatchNorm_wf_def embedding_size_def H_def W_def)
  obtain b where b: "BatchNorm2d_forward (conv_bn m) (ReLU4 c) = Inr b" "is_shape4 n C A B b"
    using BatchNorm2d_ok [OF ReLU4_shape [OF csh] bn2] by blast
  obtain f' where f': "Flatten_forward b = Inr f'" "is_shape2 n (C * A * B) f'"
    using Flatten_ok [OF b(2) n0 pos] by blast
  obtain l where l: "Linear_forward (proj m) f' = Inr l" "is_shape2 n (H * W) l"
    using Linear_ok [OF f'(2) inf] outf by auto
  obtain out where out: "BatchNorm1d_forward (proj_bn m) (ReLU2 l) = Inr out"
    "is_shape2 n (H * W) out"
    using BatchNorm1d_ok [OF ReLU2_shape [OF l(2)] bn1] by blast
  have "conv_e m x = Inr out"
    by (simp add: conv_e_def conv b(1) f'(1) l(1) out(1))
  then show ?thesis using out(2) unfolding H_def W_def by blast
qed

text \<open>
  Claim C8. In a model built by \<open>__init__\<close> with \<open>C\<close> convolution channels and kernel size
  \<open>k\<close> (\<open>1 \<le> k\<close>, \<open>k \<le> 2W\<close>, \<open>k \<le> H\<close>), on a batch of \<open>n \<ge> 1\<close> images of shape
  \<open>(1, 2W, H)\<close> the convolution stage returns a tensor of shape \<open>(n, C, 2W-k+1, H-k+1)\<close>.
  Its element at channel \<open>oc\<close>, position \<open>(i, j)\<close> is the weight of the 1\<times>1 pointwise
  kernel of channel \<open>oc\<close> times the unpadded \<open>k \<times> k\<close> cross-correlation of the single
  depthwise kernel with the image at \<open>(i, j)\<close>. Flattened, the feature map has
  \<open>C * (2W-k+1) * (H-k+1)\<close> elements per image; this is \<open>flattened_size\<close>, the input size
  of the linear projection, and the whole stack \<open>conv_e\<close> returns \<open>n\<close> vectors of length
  \<open>H * W\<close>.
\<close>

theorem DSConv2d_output_shape_and_flattened_size:
  assumes wf: "DSConvE_wf C k m"
    and x: "is_shape4 n 1 (2 * embedding_size_w m) (embedding_size_h m) x"
    and n: "1 \<le> n" and C: "1 \<le> C"
    and k: "1 \<le> k" "k \<le> 2 * embedding_size_w m" "k \<le> embedding_size_h m"
  shows "\<exists>c f out.
           DSConv2d_forward (conv m) x = Inr c
         \<and> is_shape4 n C (2 * embedding_size_w m - k + 1) (embedding_size_h m - k + 1) c
         \<and> (\<forall>b<n. \<forall>oc<C. \<forall>i<2 * embedding_size_w m - k + 1. \<forall>j<embedding_size_h m - k + 1.
               c ! b ! oc ! i ! j
               = pointwise_weight (conv m) ! oc ! 0
                 * (\<Sum>p<k. \<Sum>q<k. depthwise_weight (conv m) ! 0 ! p ! q
                                     * x ! b ! 0 ! (i + p) ! (j + q)))
         \<and> Flatten_forward c = Inr f
         \<and> is_shape2 n (C * (2 * embedding_size_w m - k + 1) * (embedding_size_h m - k + 1)) f
         \<and> flattened_size (embedding_size_h m) (embedding_size_w m) C k
             = int (C * (2 * embedding_size_w m - k + 1) * (embedding_size_h m - k + 1))
         \<and> in_features (proj m)
             = C * (2 * embedding_size_w m - k + 1) * (embedding_size_h m - k + 1)
         \<and> conv_e m x = Inr out
         \<and> is_shape2 n (embedding_size_h m * embedding_size_w m) out"
proof -
  obtain c where c: "DSConv2d_forward (conv m) x = Inr c"
    "is_shape4 n C (2 * embedding_size_w m - k + 1) (embedding_size_h m - k + 1) c"
    "\<forall>b<n. \<forall>oc<C. \<forall>i<2 * embedding_size_w m - k + 1. \<forall>j<embedding_size_h m - k + 1.
               c ! b ! oc ! i ! j
               = pointwise_weight (conv m) ! oc ! 0
                 * (\<Sum>p<k. \<Sum>q<k. depthwise_weight (conv m) ! 0 ! p ! q
                                     * x ! b ! 0 ! (i + p) ! (j + q))"
    using DSConv2d_forward_wf [OF wf x k] by blast
  have pos: "0 < C * (2 * embedding_size_w m - k + 1) * (embedding_size_h m - k + 1)"
    using C by simp
  have n0: "0 < n" using n by simp
  obtain f where f: "Flatten_forward c = Inr f"
    "is_shape2 n (C * (2 * embedding_size_w m - k + 1) * (embedding_size_h m - k + 1)) f"
    using Flatten_ok [OF c(2) n0 pos] by blast
  obtain out where out: "conv_e m x = Inr out"
    "is_shape2 n (embedding_size_h m * embedding_size_w m) out"
    using conv_e_ok [OF wf x n C k] by blast
  show ?thesis
    using c f out in_features_flattened [OF wf k(2,3)] by blast
qed

theorem DSConv2d_output_shape_and_flattened_size_witness:
  "DSConvE_wf 2 2 example_model
   \<and> is_shape4 1 1 4 2 [[[[1, 0], [0, 1], [1, 1], [0, 0 :: real]]]]
   \<and> (\<exists>c f out.
         DSConv2d_forward (conv example_model) [[[[1, 0], [0, 1], [1, 1], [0, 0]]]] = Inr c
       \<and> is_shape4 1 2 3 1 c
       \<and> Flatten_forward c = Inr f \<and> is_shape2 1 6 f
       \<and> conv_e example_model [[[[1, 0], [0, 1], [1, 1], [0, 0]]]] = Inr out
       \<and> is_shape2 1 4 out)
   \<and> flattened_size 2 2 2 2 = 6
   \<and> in_features (proj example_model) = 6
   \<and> DSConv2d_forward (conv example_model) [[[[1, 0], [0, 1], [1, 1], [0, 0]]]]
       = Inr [[[[2], [1], [1]], [[- 2], [- 1], [- 1]]]]"
proof -
  have m: "embedding_size_h example_model = 2" "embedding_size_w example_model = 2"
    by (simp_all add: example_model_def)
  have x: "is_shape4 1 1 4 2 [[[[1, 0], [0, 1], [1, 1], [0, 0 :: real]]]]"
    by (simp add: is_shape4_def is_shape3_def is_shape2_def)
  have x': "is_shape4 1 1 (2 * embedding_size_w example_model) (embedding_size_h example_model)
              [[[[1, 0], [0, 1], [1, 1], [0, 0 :: real]]]]"
    using x by (simp add: m)
  have "\<exists>c f out.
         DSConv2d_forward (conv example_model) [[[[1, 0], [0, 1], [1, 1], [0, 0]]]] = Inr c
       \<and> is_shape4 1 2 3 1 c
       \<and> Flatten_forward c = Inr f \<and> is_shape2 1 6 f
       \<and> flattened_size 2 2 2 2 = 6
       \<and> in_features (proj example_model) = 6
       \<and> conv_e example_model [[[[1, 0], [0, 1], [1, 1], [0, 0]]]] = Inr out
       \<and> is_shape2 1 4 out"
    using DSConv2d_output_shape_and_flattened_size [OF ex_wf x'] by (simp add: m) blast
  then show ?thesis using ex_wf x ex_conv by blast
qed

subsection \<open>The forward pass on a batch in range\<close>

lemma conv_input_shape:
  assumes wf: "DSConvE_wf C k m"
    and s: "\<forall>i\<in>set s. 0 \<le> i \<and> i < int (num_e m)"
    and r: "\<forall>j\<in>set r. 0 \<le> j \<and> j < int (num_r m)"
    and len: "length r = length s" and sne: "s \<noteq> []"
    and h: "0 < embedding_size_h m" and w: "0 < embedding_size_w m"
  shows "\<exists>ci. conv_input m s r = Inr ci
           \<and> is_shape4 (length s) 1 (2 * embedding_size_w m) (embedding_size_h m) ci"
proof -
  define H W where "H = embedding_size_h m" and "W = embedding_size_w m"
  define ci where "ci = map2 (\<lambda>i j. [chunks H (embed_e m ! nat i) @ chunks H (embed_r m ! nat j)]) s r"
  have val: "conv_input m s r = Inr ci"
    unfolding ci_def H_def by (rule conv_input_value [OF wf s r len sne h w])
  have H0: "0 < H" using h by (simp add: H_def)
  have erow: "length (embed_e m ! nat i) = W * H" if "i \<in> set s" for i
  proof -
    have "nat i < num_e m" using s that by auto
    then show ?thesis
      using wf_embed_e [OF wf] unfolding H_def W_def
      by (simp add: is_shape2_row mult.commute)
  qed
  have rrow: "length (embed_r m ! nat j) = W * H" if "j \<in> set r" for j
  proof -
    have "nat j < num_r m" using r that by auto
    then show ?thesis
      using wf_embed_r [OF wf] unfolding H_def W_def
      by (simp add: is_shape2_row mult.commute)
  qed
  have img: "is_shape2 (2 * W) H (chunks H (embed_e m ! nat i) @ chunks H (embed_r m ! nat j))"
    if "i \<in> set s" "j \<in> set r" for i j
    using is_shape2_append [OF chunks_shape [OF erow [OF that(1)] H0]
        chunks_shape [OF rrow [OF that(2)] H0]]
    by (simp add: mult_2)
  have "is_shape4 (length s) 1 (2 * W) H ci"
    using img len
    by (auto simp: is_shape4_def is_shape3_def list_all_iff ci_def dest: set_zip_leftD set_zip_rightD)
  then show ?thesis using val unfolding H_def W_def by blast
qed

lemma mm_t_ok:
  assumes a: "is_shape2 n d a" and b: "is_shape2 p d b"
  shows "mm_t a b = Inr (map (\<lambda>row. map (\<lambda>col. dot row col) b) a)
       \<and> is_shape2 n p (map (\<lambda>row. map (\<lambda>col. dot row col) b) a)"
proof -
  have "same_lengths (a @ b)"
    using a b by (cases a; cases b) (auto simp: same_lengths_def is_shape2_def list_all_iff)
  then show ?thesis using a b by (simp add: mm_t_def is_shape2_def list_all_iff)
qed

lemma DSConvE_forward_ok:
  assumes wf: "DSConvE_wf C k m"
    and s: "\<forall>i\<in>set s. 0 \<le> i \<and> i < int (num_e m)"
    and r: "\<forall>j\<in>set r. 0 \<le> j \<and> j < int (num_r m)"
    and len: "length r = length s" and sne: "s \<noteq> []"
    and C: "1 \<le> C"
    and k: "1 \<le> k" "k \<le> 2 * embedding_size_w m" "k \<le> embedding_size_h m"
  shows "\<exists>scores. DSConvE_forward m s r = Inr scores \<and> is_shape2 (length s) (num_e m) scores"
proof -
  have h: "0 < embedding_size_h m" using k by simp
  have w: "0 < embedding_size_w m" using k by simp
  obtain ci where ci: "conv_input m s r = Inr ci"
    "is_shape4 (length s) 1 (2 * embedding_size_w m) (embedding_size_h m) ci"
    using conv_input_shape [OF wf s r len sne h w] by blast
  have n: "1 \<le> length s" using sne by (cases s) simp_all
  obtain out where out: "conv_e m ci = Inr out"
    "is_shape2 (length s) (embedding_size_h m * embedding_size_w m) out"
    using conv_e_ok [OF wf ci(2) n C k] by blast
  show ?thesis
    using mm_t_ok [OF out(2) wf_embed_e [OF wf]]
    by (simp add: DSConvE_forward_def ci(1) out(1))
qed

subsection \<open>Lookups in and out of range\<close>

lemma rows_shape:
  assumes w: "is_shape2 n d weight" and s: "\<forall>i\<in>set s. 0 \<le> i \<and> i < int n"
  shows "is_shape2 (length s) d (map (\<lambda>i. weight ! nat i) s)"
proof -
  have "length (weight ! nat i) = d" if "i \<in> set s" for i
  proof -
    have "nat i < n" using s that by auto
    then show ?thesis using w by (rule is_shape2_row [rotated])
  qed
  then show ?thesis by (simp add: is_shape2_def list_all_iff)
qed

text \<open>
  Claim C9. In a model built by \<open>__init__\<close>, the lookup \<open>forward\<close> performs on a batch of
  entity indices that all lie in \<open>[0, num_e)\<close> returns, for every index of the batch, its
  row of the table, a vector of length \<open>H * W\<close>; likewise for relation indices in
  \<open>[0, num_r)\<close>. When a batch holds an index outside the range (negative ones included)
  the lookup fails with \<open>IndexError\<close>, and so do \<open>forward\<close> and \<open>test\<close>: no index is wrapped
  and no row is made up. On index batches in range (of equal size at least 1, with a kernel
  that fits the image) \<open>forward\<close> does return: one score per entity for every batch element.
\<close>

theorem Embedding_forward_rows_or_IndexError:
  assumes "DSConvE_wf C k m"
  shows "((\<forall>i\<in>set s. 0 \<le> i \<and> i < int (num_e m)) \<longrightarrow>
            Embedding_forward (embed_e m) s = Inr (map (\<lambda>i. embed_e m ! nat i) s)
          \<and> is_shape2 (length s) (embedding_size_h m * embedding_size_w m)
               (map (\<lambda>i. embed_e m ! nat i) s))
       \<and> ((\<forall>j\<in>set r. 0 \<le> j \<and> j < int (num_r m)) \<longrightarrow>
            Embedding_forward (embed_r m) r = Inr (map (\<lambda>j. embed_r m ! nat j) r)
          \<and> is_shape2 (length r) (embedding_size_h m * embedding_size_w m)
               (map (\<lambda>j. embed_r m ! nat j) r))
       \<and> ((\<exists>i\<in>set s. \<not> (0 \<le> i \<and> i < int (num_e m))) \<longrightarrow>
            Embedding_forward (embed_e m) s = Inl IndexError
          \<and> DSConvE_forward m s r = Inl IndexError \<and> DSConvE_test m s r = Inl IndexError)
       \<and> ((\<exists>j\<in>set r. \<not> (0 \<le> j \<and> j < int (num_r m))) \<longrightarrow>
            Embedding_forward (embed_r m) r = Inl IndexError)
       \<and> ((\<forall>i\<in>set s. 0 \<le> i \<and> i < int (num_e m))
          \<and> (\<exists>j\<in>set r. \<not> (0 \<le> j \<and> j < int (num_r m))) \<longrightarrow>
            DSConvE_forward m s r = Inl IndexError \<and> DSConvE_test m s r = Inl IndexError)
       \<and> ((\<forall>i\<in>set s. 0 \<le> i \<and> i < int (num_e m))
          \<and> (\<forall>j\<in>set r. 0 \<le> j \<and> j < int (num_r m))
          \<and> length r = length s \<and> s \<noteq> [] \<and> 1 \<le> C \<and> 1 \<le> k
          \<and> k \<le> 2 * embedding_size_w m \<and> k \<le> embedding_size_h m \<longrightarrow>
            (\<exists>scores. DSConvE_forward m s r = Inr scores
                     \<and> is_shape2 (length s) (num_e m) scores))"
proof -
  note e = wf_embed_e [OF assms] and r = wf_embed_r [OF assms]
  have le: "length (embed_e m) = num_e m" and lr: "length (embed_r m) = num_r m"
    using e r by (simp_all add: is_shape2_def)
  have a: "conv_input m s r = Inl IndexError \<Longrightarrow>
           DSConvE_forward m s r = Inl IndexError \<and> DSConvE_test m s r = Inl IndexError"
    by (simp add: DSConvE_forward_def DSConvE_test_def)
  have ok: "\<exists>scores. DSConvE_forward m s r = Inr scores \<and> is_shape2 (length s) (num_e m) scores"
    if "\<forall>i\<in>set s. 0 \<le> i \<and> i < int (num_e m)" "\<forall>j\<in>set r. 0 \<le> j \<and> j < int (num_r m)"
      "length r = length s" "s \<noteq> []" "1 \<le> C" "1 \<le> k"
      "k \<le> 2 * embedding_size_w m" "k \<le> embedding_size_h m"
    using DSConvE_forward_ok [OF assms that] .
  have in_range:
    "(\<forall>i\<in>set s. 0 \<le> i \<and> i < int (num_e m)) \<longrightarrow>
            Embedding_forward (embed_e m) s = Inr (map (\<lambda>i. embed_e m ! nat i) s)
          \<and> is_shape2 (length s) (embedding_size_h m * embedding_size_w m)
               (map (\<lambda>i. embed_e m ! nat i) s)"
    "(\<forall>j\<in>set r. 0 \<le> j \<and> j < int (num_r m)) \<longrightarrow>
            Embedding_forward (embed_r m) r = Inr (map (\<lambda>j. embed_r m ! nat j) r)
          \<and> is_shape2 (length r) (embedding_size_h m * embedding_size_w m)
               (map (\<lambda>j. embed_r m ! nat j) r)"
    using Embedding_forward_ok [of s "embed_e m"] Embedding_forward_ok [of r "embed_r m"]
      rows_shape [OF e, of s] rows_shape [OF r, of r]
    unfolding le lr by blast+
  have out_of_range:
    "(\<exists>i\<in>set s. \<not> (0 \<le> i \<and> i < int (num_e m))) \<longrightarrow>
            Embedding_forward (embed_e m) s = Inl IndexError
          \<and> DSConvE_forward m s r = Inl IndexError \<and> DSConvE_test m s r = Inl IndexError"
    "(\<exists>j\<in>set r. \<not> (0 \<le> j \<and> j < int (num_r m))) \<longrightarrow>
            Embedding_forward (embed_r m) r = Inl IndexError"
    "(\<forall>i\<in>set s. 0 \<le> i \<and> i < int (num_e m))
          \<and> (\<exists>j\<in>set r. \<not> (0 \<le> j \<and> j < int (num_r m))) \<longrightarrow>
            DSConvE_forward m s r = Inl IndexError \<and> DSConvE_test m s r = Inl IndexError"
    using Embedding_forward_fails [of s "embed_e m"] Embedding_forward_fails [of r "embed_r m"]
      a [OF conv_input_bad_s [OF e, of s r]] a [OF conv_input_bad_r [OF e _ r, of s r]]
    unfolding le lr by blast+
  show ?thesis
    using in_range out_of_range ok by (intro conjI impI) blast+
qed

theorem Embedding_forward_rows_or_IndexError_witness:
  "DSConvE_wf 2 2 example_model
   \<and> Embedding_forward (embed_e example_model) [1, 0] = Inr [[0, 1, 1, 0], [1, 0, 0, 1]]
   \<and> is_shape2 2 (2 * 2) [[0, 1, 1, 0], [1, 0, 0, 1 :: real]]
   \<and> Embedding_forward (embed_r example_model) [0] = Inr [[1, 1, 0, 0]]
   \<and> Embedding_forward (embed_e example_model) [0, 2] = Inl IndexError
   \<and> Embedding_forward (embed_e example_model) [- 1] = Inl IndexError
   \<and> Embedding_forward (embed_r example_model) [0, 1] = Inl IndexError
   \<and> DSConvE_forward example_model [0, 2] [0, 0] = Inl IndexError
   \<and> DSConvE_test example_model [0] [1] = Inl IndexError
   \<and> (\<exists>scores. DSConvE_forward example_model [1, 0] [0, 0] = Inr scores
              \<and> is_shape2 2 2 scores)
   \<and> DSConvE_forward example_model [0] [0] = Inr [[3, 2]]"
proof -
  have f: "num_e example_model = 2" "num_r example_model = 1"
    "embedding_size_h example_model = 2" "embedding_size_w example_model = 2"
    "embed_e example_model = [[1, 0, 0, 1], [0, 1, 1, 0]]"
    "embed_r example_model = [[1, 1, 0, 0]]"
    by (simp_all add: example_model_def)
  have "Embedding_forward (embed_e example_model) [1, 0] = Inr [[0, 1, 1, 0], [1, 0, 0, 1]]
   \<and> is_shape2 2 (2 * 2) [[0, 1, 1, 0], [1, 0, 0, 1 :: real]]
   \<and> Embedding_forward (embed_r example_model) [0] = Inr [[1, 1, 0, 0]]
   \<and> Embedding_forward (embed_e example_model) [0, 2] = Inl IndexError
   \<and> Embedding_forward (embed_e example_model) [- 1] = Inl IndexError
   \<and> Embedding_forward (embed_r example_model) [0, 1] = Inl IndexError
   \<and> DSConvE_forward example_model [0, 2] [0, 0] = Inl IndexError
   \<and> DSConvE_test example_model [0] [1] = Inl IndexError"
    using Embedding_forward_rows_or_IndexError [OF ex_wf, of "[1, 0]" "[0]"]
      Embedding_forward_rows_or_IndexError [OF ex_wf, of "[0, 2]" "[0, 0]"]
      Embedding_forward_rows_or_IndexError [OF ex_wf, of "[- 1]" "[0, 1]"]
      Embedding_forward_rows_or_IndexError [OF ex_wf, of "[0]" "[1]"]
    by (simp add: f is_shape2_def)
  moreover have "\<exists>scores. DSConvE_forward example_model [1, 0] [0, 0] = Inr scores
              \<and> is_shape2 2 2 scores"
    using Embedding_forward_rows_or_IndexError [OF ex_wf, of "[1, 0]" "[0, 0]"]
    by (simp add: f numeral_2_eq_2)
  ultimately show ?thesis using ex_wf ex_fw by blast
qed

subsection \<open>The moving average of the loss\<close>












subsection \<open>Smoothed targets\<close>

lemma scatter_fold:
  assumes "\<forall>k\<in>set idx. 0 \<le> k \<and> k < int (length row)"
  shows "foldl (\<lambda>acc k. acc[nat k := v]) row idx
         = map (\<lambda>j. if int j \<in> set idx then v else row ! j) [0..<length row]"
  using assms
proof (induction idx arbitrary: row)
  case Nil
  show ?case by (simp add: map_nth)
next
  case (Cons k idx)
  have k: "0 \<le> k" "nat k < length row" using Cons.prems by auto
  have "foldl (\<lambda>acc k. acc[nat k := v]) (row[nat k := v]) idx
        = map (\<lambda>j. if int j \<in> set idx then v else row[nat k := v] ! j) [0..<length row]"
    using Cons.IH [of "row[nat k := v]"] Cons.prems by simp
  also have "\<dots> = map (\<lambda>j. if int j \<in> set (k # idx) then v else row ! j) [0..<length row]"
    using k by (intro map_cong refl) (auto simp: nth_list_update)
  finally show ?case by simp
qed

lemma scatter_row_zero:
  assumes "\<forall>k\<in>set idx. 0 \<le> k \<and> k < int N"
  shows "scatter_row (replicate N 0) idx 1
         = Inr (map (\<lambda>j. if int j \<in> set idx then 1 else 0) [0..<N])"
proof -
  have "foldl (\<lambda>acc k. acc[nat k := 1]) (replicate N (0::int)) idx
        = map (\<lambda>j. if int j \<in> set idx then 1 else replicate N 0 ! j) [0..<N]"
    using scatter_fold [of idx "replicate N 0" 1] assms by simp
  also have "\<dots> = map (\<lambda>j. if int j \<in> set idx then 1 else 0) [0..<N]"
    by (intro map_cong refl) simp
  finally show ?thesis using assms by (simp add: scatter_row_def list_all_iff)
qed

lemma zero_inplace_shape:
  "is_shape2 r c y \<Longrightarrow> zero_inplace y = replicate r (replicate c 0)"
proof (induction y arbitrary: r)
  case Nil
  then show ?case by (simp add: zero_inplace_def is_shape2_def)
next
  case (Cons row y)
  then obtain r' where r: "r = Suc r'" and row: "length row = c" and y: "is_shape2 r' c y"
    by (auto simp: is_shape2_def)
  have "map (\<lambda>_. 0::int) row = replicate c 0" using row by (simp add: map_replicate_const)
  then show ?case using Cons.IH [OF y] by (simp add: zero_inplace_def r)
qed

lemma LongTensor_shape: "is_shape2 rows cols (LongTensor junk rows cols)"
  by (simp add: LongTensor_def is_shape2_def list_all_iff)

lemma scatter_zero:
  assumes os: "length os = n" and rng: "\<forall>row\<in>set os. \<forall>obj\<in>set row. 0 \<le> obj \<and> obj < int N"
  shows "scatter_inplace (replicate n (replicate N 0)) os 1
         = Inr (map (\<lambda>idx. map (\<lambda>j. if int j \<in> set idx then 1 else 0) [0..<N]) os)"
proof -
  have z: "zip (replicate n (replicate N (0::int))) os = map (\<lambda>idx. (replicate N 0, idx)) os"
    using os by (induction os arbitrary: n) auto
  have "sequence_err (map2 (\<lambda>row idx. scatter_row row idx 1) (replicate n (replicate N 0)) os)
        = sequence_err (map (\<lambda>idx. scatter_row (replicate N 0) idx 1) os)"
    unfolding z by (simp add: o_def)
  also have "\<dots> = Inr (map (\<lambda>idx. map (\<lambda>j. if int j \<in> set idx then 1 else 0) [0..<N]) os)"
    by (rule sequence_err_all_ok) (use rng scatter_row_zero in blast)
  finally show ?thesis using os by (simp add: scatter_inplace_def)
qed

lemma card_in_range:
  assumes "\<forall>k\<in>set idx. 0 \<le> k \<and> k < int N"
  shows "card {j. j < N \<and> int j \<in> set idx} = card (set idx)"
proof -
  have "int ` {j. j < N \<and> int j \<in> set idx} = set idx"
  proof (intro equalityI subsetI)
    fix k assume "k \<in> set idx"
    then have "nat k < N" "int (nat k) = k" using assms by auto
    then show "k \<in> int ` {j. j < N \<and> int j \<in> set idx}"
      using \<open>k \<in> set idx\<close> by (intro image_eqI [of _ _ "nat k"]) simp_all
  qed auto
  then have "card (int ` {j. j < N \<and> int j \<in> set idx}) = card (set idx)" by simp
  then show ?thesis by (simp add: card_image)
qed

lemma smoothed_row_sum:
  assumes rng: "\<forall>k\<in>set idx. 0 \<le> k \<and> k < int N" and N: "0 < N"
  shows "sum_list (map (\<lambda>j. if int j \<in> set idx then (1 - e) + e / real N else e / real N) [0..<N])
         = real (card (set idx)) * (1 - e) + (e::real)"
proof -
  let ?S = "{j. j < N \<and> int j \<in> set idx}"
  have fin: "finite {..<N}" by simp
  have S: "{..<N} \<inter> {j. int j \<in> set idx} = ?S" by auto
  have c: "card ?S = card (set idx)" using rng by (rule card_in_range)
  have "sum_list (map (\<lambda>j. if int j \<in> set idx then (1 - e) + e / real N else e / real N) [0..<N])
        = (\<Sum>j<N. (if int j \<in> set idx then (1 - e) else 0) + e / real N)"
    unfolding sum_list_upt by (intro sum.cong refl) simp
  also have "\<dots> = (\<Sum>j<N. if int j \<in> set idx then (1 - e) else 0) + (\<Sum>j<N. e / real N)"
    by (rule sum.distrib)
  also have "(\<Sum>j<N. if int j \<in> set idx then (1 - e) else 0) = (\<Sum>j\<in>?S. 1 - e)"
    using sum.inter_restrict [OF fin, of "\<lambda>_. 1 - e" "{j. int j \<in> set idx}"] S by simp
  also have "\<dots> = real (card (set idx)) * (1 - e)" by (simp add: c)
  also have "(\<Sum>j<N. e / real N) = e" using N by simp
  finally show ?thesis .
qed

text \<open>
  Claim C3. Let the buffer \<open>y_multihot\<close> have the shape \<open>(batch_size, num_entities)\<close> it is
  allocated with, whatever it holds, and let every index of \<open>os\<close> lie in
  \<open>[0, num_entities)\<close>, with \<open>num_entities > 0\<close>. Then the loop body builds, for a batch of
  \<open>s_size\<close> elements, smoothed targets of shape \<open>(s_size, num_entities)\<close> whose value is
  \<open>(1 - \<epsilon>) + \<epsilon>/num_entities\<close> at every true-object index of the batch element and
  \<open>\<epsilon>/num_entities\<close> at every other index; a row with \<open>k\<close> different true objects sums to
  \<open>k * (1 - \<epsilon>) + \<epsilon>\<close>. (\<open>e\<close> is \<open>args.label_smooth\<close>.)
\<close>

theorem train_targets_label_smoothing:
  assumes buf: "is_shape2 batch_size N y_multihot" and os: "length os = s_size"
    and rng: "\<forall>row\<in>set os. \<forall>obj\<in>set row. 0 \<le> obj \<and> obj < int N" and N: "0 < N"
  shows "\<exists>y3 y_smooth.
           train_targets batch_size N e junk y_multihot s_size os = Inr (y3, y_smooth)
         \<and> is_shape2 s_size N y_smooth
         \<and> (\<forall>b<s_size. \<forall>j<N.
               y_smooth ! b ! j = (if int j \<in> set (os ! b) then (1 - e) + e / real N
                                   else e / real N))
         \<and> (\<forall>b<s_size. sum_list (y_smooth ! b) = real (card (set (os ! b))) * (1 - e) + e)"
proof -
  define y1 where "y1 = (if s_size \<noteq> batch_size then LongTensor junk s_size N else y_multihot)"
  define y3 where "y3 = map (\<lambda>idx. map (\<lambda>j. if int j \<in> set idx then 1 else (0::int)) [0..<N]) os"
  define y_smooth where
    "y_smooth = map (map (\<lambda>v. (1 - e) * real_of_int v + e / real N)) y3"
  have sh1: "is_shape2 s_size N y1"
    using buf LongTensor_shape [of s_size N junk] by (simp add: y1_def)
  have z: "zero_inplace y1 = replicate s_size (replicate N 0)"
    using sh1 by (rule zero_inplace_shape)
  have sc: "scatter_inplace (zero_inplace y1) os 1 = Inr y3"
    unfolding z y3_def using os rng by (rule scatter_zero)
  have val: "train_targets batch_size N e junk y_multihot s_size os = Inr (y3, y_smooth)"
    using N sc unfolding train_targets_def Let_def y1_def [symmetric] y_smooth_def by simp
  have row: "y_smooth ! b
             = map (\<lambda>j. if int j \<in> set (os ! b) then (1 - e) + e / real N else e / real N) [0..<N]"
    if "b < s_size" for b
    using that os by (simp add: y_smooth_def y3_def o_def if_distrib cong: if_cong)
  have shape: "is_shape2 s_size N y_smooth"
    using os by (simp add: y_smooth_def y3_def is_shape2_def list_all_iff)
  have el: "y_smooth ! b ! j = (if int j \<in> set (os ! b) then (1 - e) + e / real N else e / real N)"
    if "b < s_size" "j < N" for b j
    using that by (simp add: row)
  have sm: "sum_list (y_smooth ! b) = real (card (set (os ! b))) * (1 - e) + e" if "b < s_size" for b
  proof -
    have "os ! b \<in> set os" using os that by simp
    then have "\<forall>k\<in>set (os ! b). 0 \<le> k \<and> k < int N" using rng by blast
    then show ?thesis unfolding row [OF that] using N by (rule smoothed_row_sum)
  qed
  show ?thesis using val shape el sm by blast
qed

theorem train_targets_label_smoothing_witness:
  "train_targets 2 4 (1 / 10) (\<lambda>i j. 7) [[5, 5, 5, 5], [9, 9, 9, 9]] 2 [[2, 3], [1, 1]]
     = Inr ([[0, 0, 1, 1], [0, 1, 0, 0]],
            [[1 / 40, 1 / 40, 37 / 40, 37 / 40], [1 / 40, 37 / 40, 1 / 40, 1 / 40]])
   \<and> sum_list [1 / 40, 1 / 40, 37 / 40, 37 / 40 :: real] = 2 * (1 - 1 / 10) + 1 / 10
   \<and> sum_list [1 / 40, 37 / 40, 1 / 40, 1 / 40 :: real] = 1 * (1 - 1 / 10) + 1 / 10
   \<and> train_targets 2 4 (1 / 10) (\<lambda>i j. 7) [[5, 5, 5, 5], [9, 9, 9, 9]] 1 [[0]]
     = Inr ([[1, 0, 0, 0]], [[37 / 40, 1 / 40, 1 / 40, 1 / 40]])"
proof -
  have buf: "is_shape2 2 4 [[5, 5, 5, 5], [9, 9, 9, 9 :: int]]" by (simp add: is_shape2_def)
  have ev: "train_targets 2 4 (1 / 10) (\<lambda>i j. 7) [[5, 5, 5, 5], [9, 9, 9, 9]] 2 [[2, 3], [1, 1]]
     = Inr ([[0, 0, 1, 1], [0, 1, 0, 0]],
            [[1 / 40, 1 / 40, 37 / 40, 37 / 40], [1 / 40, 37 / 40, 1 / 40, 1 / 40]])"
    "train_targets 2 4 (1 / 10) (\<lambda>i j. 7) [[5, 5, 5, 5], [9, 9, 9, 9]] 1 [[0]]
     = Inr ([[1, 0, 0, 0]], [[37 / 40, 1 / 40, 1 / 40, 1 / 40]])"
    by (simp_all add: train_targets_def LongTensor_def zero_inplace_def scatter_inplace_def
        scatter_row_def upt_num)
  obtain y3 y_smooth where
    v: "train_targets 2 4 (1 / 10) (\<lambda>i j. 7) [[5, 5, 5, 5], [9, 9, 9, 9]] 2 [[2, 3], [1, 1]]
        = Inr (y3, y_smooth)"
    and s: "\<forall>b<2. sum_list (y_smooth ! b)
              = real (card (set ([[2, 3], [1, 1 :: int]] ! b))) * (1 - 1 / 10) + 1 / 10"
    using train_targets_label_smoothing [OF buf, of "[[2, 3], [1, 1]]" 2 "1 / 10" "\<lambda>i j. 7"]
    by auto
  have y: "y_smooth = [[1 / 40, 1 / 40, 37 / 40, 37 / 40], [1 / 40, 37 / 40, 1 / 40, 1 / 40]]"
    using v unfolding ev by simp
  have "sum_list [1 / 40, 1 / 40, 37 / 40, 37 / 40 :: real] = 2 * (1 - 1 / 10) + 1 / 10"
    using s [rule_format, of 0] unfolding y by simp
  moreover have "sum_list [1 / 40, 37 / 40, 1 / 40, 1 / 40 :: real] = 1 * (1 - 1 / 10) + 1 / 10"
    using s [rule_format, of 1] unfolding y by simp
  ultimately show ?thesis using ev by simp
qed

subsection \<open>Ranks\<close>

lemma sigmoid_less_iff [simp]: "sigmoid x < sigmoid y \<longleftrightarrow> x < y"
proof -
  have p: "0 < 1 + exp (- x)" "0 < 1 + exp (- y)" by (simp_all add: add_pos_pos)
  have "sigmoid x < sigmoid y \<longleftrightarrow> 1 + exp (- y) < 1 + exp (- x)"
    unfolding sigmoid_def using p by (simp add: frac_less_eq field_simps)
  then show ?thesis by simp
qed

lemma sigmoid_le_iff [simp]: "sigmoid x \<le> sigmoid y \<longleftrightarrow> x \<le> y"
  using sigmoid_less_iff [of y x] by (simp only: not_less [symmetric])

lemma sigmoid_eq_iff [simp]: "sigmoid x = sigmoid y \<longleftrightarrow> x = y"
  using sigmoid_le_iff [of x y] sigmoid_le_iff [of y x] by (auto simp del: sigmoid_le_iff)

lemma rank_wf: "DSConvE_wf 2 2 rank_model"
  by (simp add: rank_model_def example_model_def DSConvE_wf_def BatchNorm_wf_def is_shape2_def
      is_shape3_def embedding_size_def flattened_size_def)

lemma tie_wf: "DSConvE_wf 2 2 tie_model"
  by (simp add: tie_model_def example_model_def DSConvE_wf_def BatchNorm_wf_def is_shape2_def
      is_shape3_def embedding_size_def flattened_size_def)

lemma rank_fw: "DSConvE_forward rank_model [0] [0] = Inr [[3, 2, 1, 0]]"
proof -
  have sel: "conv rank_model = conv example_model" "conv_bn rank_model = conv_bn example_model"
    "proj rank_model = proj example_model" "proj_bn rank_model = proj_bn example_model"
    by (simp_all add: rank_model_def)
  have ce: "conv_e rank_model x = conv_e example_model x" for x
    unfolding conv_e_def sel by (rule refl)
  have ci: "conv_input rank_model [0] [0] = Inr [[[[1, 0], [0, 1], [1, 1], [0, 0]]]]"
    by (simp add: rank_model_def conv_input_def example_model_def Embedding_forward_def
        embedding_lookup_def view3_def chunks_def cat_dim1_def same_lengths_def unsqueeze1_def)
  have e: "embed_e rank_model = [[1, 0, 0, 1], [0, 1, 1, 0], [0, 0, 1, 0], [0, 0, 0, 0]]"
    by (simp add: rank_model_def)
  show ?thesis
    by (simp add: DSConvE_forward_def ci ce ex_conv_e e mm_t_def same_lengths_def dot_def)
qed

lemma tie_fw: "DSConvE_forward tie_model [0] [0] = Inr [[3, 3]]"
proof -
  have sel: "conv tie_model = conv example_model" "conv_bn tie_model = conv_bn example_model"
    "proj tie_model = proj example_model" "proj_bn tie_model = proj_bn example_model"
    by (simp_all add: tie_model_def)
  have ce: "conv_e tie_model x = conv_e example_model x" for x
    unfolding conv_e_def sel by (rule refl)
  have ci: "conv_input tie_model [0] [0] = Inr [[[[1, 0], [0, 1], [1, 1], [0, 0]]]]"
    by (simp add: tie_model_def conv_input_def example_model_def Embedding_forward_def
        embedding_lookup_def view3_def chunks_def cat_dim1_def same_lengths_def unsqueeze1_def)
  have e: "embed_e tie_model = [[1, 0, 0, 1], [0, 1, 1, 1]]"
    by (simp add: tie_model_def)
  show ?thesis
    by (simp add: DSConvE_forward_def ci ce ex_conv_e e mm_t_def same_lengths_def dot_def)
qed

lemma rank_test: "DSConvE_test rank_model [0] [0] = Inr [[sigmoid 3, sigmoid 2, sigmoid 1, sigmoid 0]]"
  by (simp add: DSConvE_test_def rank_fw)

lemma tie_test: "DSConvE_test tie_model [0] [0] = Inr [[sigmoid 3, sigmoid 3]]"
  by (simp add: DSConvE_test_def tie_fw)

lemmas rank_eval = batch_ranks_def element_ranks_def rank_of_def eq_mask_def max_dim0_def
  argmax_first_def width_def topk_lowest_index_first_def topk_highest_index_first_def upt_num

lemma rank_ranks:
  "valid_ranks topk_lowest_index_first (DSConvE_test rank_model) 1 [([0], [0], [[0, 1, 3]])]
   = Inr [1, 2, 4]"
  by (simp add: rank_test rank_eval)

lemma tie_ranks:
  "valid_ranks topk_lowest_index_first (DSConvE_test tie_model) 1 [([0], [0], [[0, 1]])] = Inr [1, 2]"
  "valid_ranks topk_highest_index_first (DSConvE_test tie_model) 1 [([0], [0], [[0, 1]])] = Inr [2, 1]"
  by (simp_all add: tie_test rank_eval)

lemma tie_topk:
  "is_topk [sigmoid 3, sigmoid 3] 2 (topk_lowest_index_first [sigmoid 3, sigmoid 3] 2)"
  "is_topk [sigmoid 3, sigmoid 3] 2 (topk_highest_index_first [sigmoid 3, sigmoid 3] 2)"
  "topk_lowest_index_first [sigmoid 3, sigmoid 3] 2 = [0, 1]"
  "topk_highest_index_first [sigmoid 3, sigmoid 3] 2 = [1, 0]"
  by (simp_all add: is_topk_def rank_eval)

lemma is_topk_all_set:
  assumes "is_topk scores (length scores) ixs"
  shows "set ixs = {0..<length scores}"
proof -
  have d: "distinct ixs" and l: "length ixs = length scores"
    and s: "set ixs \<subseteq> {0..<length scores}"
    using assms by (auto simp: is_topk_def list_all_iff)
  have "card (set ixs) = card {0..<length scores}"
    using d l by (simp add: distinct_card)
  then show ?thesis using s by (intro card_subset_eq) simp_all
qed

lemma count_via_indices:
  assumes "is_topk scores (length scores) ixs"
  shows "length (filter (\<lambda>v. P v) scores) = length (filter (\<lambda>i. P (scores ! i)) ixs)"
proof -
  have d: "distinct ixs" using assms by (simp add: is_topk_def)
  have "length (filter (\<lambda>i. P (scores ! i)) ixs) = card ({i. P (scores ! i)} \<inter> set ixs)"
    using d by (rule distinct_length_filter)
  also have "\<dots> = card ({i. P (scores ! i)} \<inter> set [0..<length scores])"
    using is_topk_all_set [OF assms] by simp
  also have "\<dots> = length (filter (\<lambda>i. P (scores ! i)) [0..<length scores])"
    by (rule distinct_length_filter [symmetric]) simp
  also have "\<dots> = length (filter P (map ((!) scores) [0..<length scores]))"
    by (simp add: filter_map o_def)
  also have "\<dots> = length (filter P scores)" by (simp add: map_nth)
  finally show ?thesis by simp
qed

lemma rank_of_position:
  assumes "0 \<le> obj" "nat obj \<in> set ixs"
  shows "rank_of ixs obj = Inr (length (takeWhile (\<lambda>i. i \<noteq> nat obj) ixs) + 1)"
proof -
  let ?g = "\<lambda>i::nat. if int i = obj then 1 else (0::nat)"
  have g: "?g i = 1 \<longleftrightarrow> i = nat obj" for i using assms(1) by auto
  have ne: "ixs \<noteq> []" using assms(2) by auto
  have "1 \<in> set (map ?g ixs)" using assms(2) g by force
  moreover have "\<forall>v\<in>set (map ?g ixs). v \<le> 1" by auto
  ultimately have mx: "Max (set (map ?g ixs)) = 1"
    by (intro Max_eqI) auto
  have "takeWhile (\<lambda>v. v \<noteq> 1) (map ?g ixs) = map ?g (takeWhile (\<lambda>i. ?g i \<noteq> 1) ixs)"
    by (simp add: takeWhile_map o_def)
  also have "takeWhile (\<lambda>i. ?g i \<noteq> 1) ixs = takeWhile (\<lambda>i. i \<noteq> nat obj) ixs"
    using g by (intro takeWhile_cong) auto
  finally have len: "length (takeWhile (\<lambda>v. v \<noteq> 1) (map ?g ixs))
                = length (takeWhile (\<lambda>i. i \<noteq> nat obj) ixs)" by simp
  have "argmax_first (eq_mask ixs obj) = length (takeWhile (\<lambda>v. v \<noteq> 1) (map ?g ixs))"
    unfolding argmax_first_def eq_mask_def mx by (rule refl)
  then have am: "argmax_first (eq_mask ixs obj) = length (takeWhile (\<lambda>i. i \<noteq> nat obj) ixs)"
    using len by (simp only:)
  have "eq_mask ixs obj \<noteq> []" using ne by (simp add: eq_mask_def)
  then show ?thesis
    by (simp add: rank_of_def max_dim0_def am)
qed

lemma position_counts:
  assumes tk: "is_topk scores (length scores) ixs" and o: "obj < length scores"
  shows "length (takeWhile (\<lambda>i. i \<noteq> obj) ixs)
         = count_above scores obj
           + length (filter (\<lambda>j. scores ! j = scores ! obj) (takeWhile (\<lambda>i. i \<noteq> obj) ixs))"
proof -
  define pre where "pre = takeWhile (\<lambda>i. i \<noteq> obj) ixs"
  define post where "post = dropWhile (\<lambda>i. i \<noteq> obj) ixs"
  have mem: "obj \<in> set ixs" using is_topk_all_set [OF tk] o by simp
  have split: "ixs = pre @ post" by (simp add: pre_def post_def)
  have "post \<noteq> []" using mem by (auto simp: post_def dropWhile_eq_Nil_conv)
  then obtain rest where post: "post = obj # rest"
    using hd_dropWhile [of "\<lambda>i. i \<noteq> obj" ixs] by (cases post) (auto simp: post_def)
  have srt: "sorted_wrt (\<lambda>i j. scores ! j \<le> scores ! i) (pre @ obj # rest)"
    using tk unfolding split post by (simp add: is_topk_def)
  have before: "\<forall>a\<in>set pre. scores ! obj \<le> scores ! a"
    using srt by (auto simp: sorted_wrt_append)
  have after: "\<forall>b\<in>set rest. scores ! b \<le> scores ! obj"
    using srt by (auto simp: sorted_wrt_append)
  have "count_above scores obj = length (filter (\<lambda>i. scores ! obj < scores ! i) ixs)"
    unfolding count_above_def using count_via_indices [OF tk, of "\<lambda>v. scores ! obj < v"] .
  also have "\<dots> = length (filter (\<lambda>i. scores ! obj < scores ! i) pre)
                  + length (filter (\<lambda>i. scores ! obj < scores ! i) rest)"
    unfolding split post by simp
  also have "filter (\<lambda>i. scores ! obj < scores ! i) rest = []"
    using after by (auto simp: filter_empty_conv)
  finally have ca: "count_above scores obj = length (filter (\<lambda>i. scores ! obj < scores ! i) pre)"
    by simp
  have "filter (\<lambda>j. scores ! j = scores ! obj) pre = filter (\<lambda>i. \<not> scores ! obj < scores ! i) pre"
    using before by (intro filter_cong) auto
  then have "length (filter (\<lambda>i. scores ! obj < scores ! i) pre)
             + length (filter (\<lambda>j. scores ! j = scores ! obj) pre) = length pre"
    using sum_length_filter_compl [of "\<lambda>i. scores ! obj < scores ! i" pre] by simp
  then show ?thesis unfolding ca pre_def by simp
qed

lemma element_ranks_value:
  assumes tk: "is_topk row (length row) (topk row (length row))"
    and os: "\<forall>obj\<in>set os_i. 0 \<le> obj \<and> obj < int (length row)"
  shows "element_ranks topk (length row) row os_i
         = Inr (map (\<lambda>obj. 1 + count_above row (nat obj)
                     + length (filter (\<lambda>j. row ! j = row ! nat obj)
                                (takeWhile (\<lambda>j. j \<noteq> nat obj) (topk row (length row))))) os_i)"
  unfolding element_ranks_def Let_def
proof (rule sequence_err_all_ok, rule ballI)
  fix obj assume "obj \<in> set os_i"
  then have o: "0 \<le> obj" "nat obj < length row" using os by auto
  have mem: "nat obj \<in> set (topk row (length row))"
    using is_topk_all_set [OF tk] o(2) by simp
  show "rank_of (topk row (length row)) obj
        = Inr (1 + count_above row (nat obj)
               + length (filter (\<lambda>j. row ! j = row ! nat obj)
                          (takeWhile (\<lambda>j. j \<noteq> nat obj) (topk row (length row)))))"
    using rank_of_position [OF o(1) mem] position_counts [OF tk o(2)] by simp
qed

lemma no_ties_before:
  assumes "\<forall>j<length row. j \<noteq> obj \<longrightarrow> row ! j \<noteq> row ! obj" "set ixs \<subseteq> {0..<length row}"
  shows "filter (\<lambda>j. row ! j = row ! obj) (takeWhile (\<lambda>j. j \<noteq> obj) ixs) = []"
proof -
  have "\<forall>j\<in>set (takeWhile (\<lambda>j. j \<noteq> obj) ixs). j < length row \<and> j \<noteq> obj"
    using assms(2) by (auto dest: set_takeWhileD)
  then show ?thesis using assms(1) by (auto simp: filter_empty_conv)
qed

lemma tied_pair_orders:
  assumes "is_topk [v, v] 2 ixs"
  shows "ixs = [0, 1] \<or> ixs = [1, 0]"
proof -
  obtain a b where ab: "ixs = [a, b]"
    using assms by (auto simp: is_topk_def length_Suc_conv numeral_2_eq_2)
  have "a < 2" "b < 2" "a \<noteq> b" using assms by (auto simp: is_topk_def ab)
  then show ?thesis unfolding ab by auto
qed

text \<open>
  Claim C2, as stated, fails when another entity has the score of the true object. In
  \<open>tie_model\<close> (a model with the shapes \<open>__init__\<close> fixes) the two entities score the same
  for the query \<open>(0, 0)\<close>, so no score is above that of either: the claim gives both the
  rank 1. The evaluator records the position in the order \<open>topk\<close> returns: the ranks of the
  true objects 0 and 1 are 1 and 2 when \<open>topk\<close> lists the lower index first, and 2 and 1
  when it lists the higher index first. By \<open>tied_pair_orders\<close> these are the only two
  orders \<open>topk\<close> can return here.
\<close>

theorem rank_exceeds_count_on_tied_scores:
  "DSConvE_wf 2 2 tie_model
   \<and> DSConvE_test tie_model [0] [0] = Inr [[sigmoid 3, sigmoid 3]]
   \<and> is_topk [sigmoid 3, sigmoid 3] 2 (topk_lowest_index_first [sigmoid 3, sigmoid 3] 2)
   \<and> is_topk [sigmoid 3, sigmoid 3] 2 (topk_highest_index_first [sigmoid 3, sigmoid 3] 2)
   \<and> valid_ranks topk_lowest_index_first (DSConvE_test tie_model) 1 [([0], [0], [[0, 1]])]
       = Inr [1, 2]
   \<and> valid_ranks topk_highest_index_first (DSConvE_test tie_model) 1 [([0], [0], [[0, 1]])]
       = Inr [2, 1]
   \<and> 1 + count_above [sigmoid 3, sigmoid 3] 0 = 1
   \<and> 1 + count_above [sigmoid 3, sigmoid 3] 1 = 1
   \<and> valid_ranks topk_lowest_index_first (DSConvE_test tie_model) 1 [([0], [0], [[0, 1]])]
       \<noteq> Inr [1 + count_above [sigmoid 3, sigmoid 3] 0, 1 + count_above [sigmoid 3, sigmoid 3] 1]
   \<and> valid_ranks topk_highest_index_first (DSConvE_test tie_model) 1 [([0], [0], [[0, 1]])]
       \<noteq> Inr [1 + count_above [sigmoid 3, sigmoid 3] 0, 1 + count_above [sigmoid 3, sigmoid 3] 1]"
proof -
  have c: "1 + count_above [sigmoid 3, sigmoid 3] 0 = 1"
    "1 + count_above [sigmoid 3, sigmoid 3] 1 = 1"
    by (simp_all add: count_above_def)
  show ?thesis
    unfolding c tie_ranks tie_test using tie_topk(1,2) tie_wf by simp
qed

text \<open>
  Claim C2, amended. For a score matrix of \<open>n\<close> rows over \<open>N\<close> entities and true-object
  indices in \<open>[0, N)\<close>, the rank the evaluator records for the true object \<open>obj\<close> of row
  \<open>i\<close> is 1 + the number of scores of the row above the score of \<open>obj\<close> + the number of
  entities with the same score as \<open>obj\<close> that \<open>topk\<close> lists before \<open>obj\<close>. It is computed
  from the whole row, whatever the other true objects of the row are. When no other entity
  has the score of \<open>obj\<close>, the rank is \<open>1 + count(scores > score[obj])\<close>.
\<close>

theorem batch_ranks_position_in_topk_order:
  assumes out: "is_shape2 n N output" and os: "length os = n" and bs: "n \<le> batch_size"
    and tk: "\<forall>i<n. is_topk (output ! i) N (topk (output ! i) N)"
    and rng: "\<forall>i<n. \<forall>obj\<in>set (os ! i). 0 \<le> obj \<and> obj < int N"
  shows "batch_ranks topk batch_size output n os
         = Inr (concat (map (\<lambda>i. map (\<lambda>obj.
                   1 + count_above (output ! i) (nat obj)
                   + length (filter (\<lambda>j. output ! i ! j = output ! i ! nat obj)
                              (takeWhile (\<lambda>j. j \<noteq> nat obj) (topk (output ! i) N))))
                 (os ! i)) [0..<n]))
       \<and> ((\<forall>i<n. \<forall>obj\<in>set (os ! i). \<forall>j<N. j \<noteq> nat obj \<longrightarrow> output ! i ! j \<noteq> output ! i ! nat obj)
          \<longrightarrow> batch_ranks topk batch_size output n os
              = Inr (concat (map (\<lambda>i. map (\<lambda>obj. 1 + count_above (output ! i) (nat obj)) (os ! i))
                              [0..<n])))"
proof -
  let ?ties = "\<lambda>i obj. length (filter (\<lambda>j. output ! i ! j = output ! i ! nat obj)
                              (takeWhile (\<lambda>j. j \<noteq> nat obj) (topk (output ! i) N)))"
  let ?g = "\<lambda>i. map (\<lambda>obj. 1 + count_above (output ! i) (nat obj) + ?ties i obj) (os ! i)"
  have len: "length output = n" using out by (simp add: is_shape2_def)
  have row: "length (output ! i) = N" if "i < n" for i
    using out that by (rule is_shape2_row)
  have w: "width output = N" if "i < n" for i
    using width_shape [OF out] that by simp
  have el: "(if i < length output \<and> i < length os
             then element_ranks topk (width output) (output ! i) (os ! i)
             else Inl IndexError) = Inr (?g i)" if "i \<in> set [0..<n]" for i
  proof -
    have i: "i < n" using that by simp
    have "element_ranks topk (length (output ! i)) (output ! i) (os ! i) = Inr (?g i)"
      unfolding row [OF i]
      using element_ranks_value [of "output ! i" topk "os ! i"] tk rng i row [OF i] by simp
    then show ?thesis using i len os by (simp add: w [OF i] row [OF i])
  qed
  have "sequence_err (map (\<lambda>i. if i < length output \<and> i < length os
             then element_ranks topk (width output) (output ! i) (os ! i)
             else Inl IndexError) [0..<n]) = Inr (map ?g [0..<n])"
    by (rule sequence_err_all_ok) (use el in blast)
  then have a: "batch_ranks topk batch_size output n os = Inr (concat (map ?g [0..<n]))"
    using bs by (simp add: batch_ranks_def min_absorb2)
  have b: "batch_ranks topk batch_size output n os
           = Inr (concat (map (\<lambda>i. map (\<lambda>obj. 1 + count_above (output ! i) (nat obj)) (os ! i))
                              [0..<n]))"
    if nt: "\<forall>i<n. \<forall>obj\<in>set (os ! i). \<forall>j<N. j \<noteq> nat obj \<longrightarrow> output ! i ! j \<noteq> output ! i ! nat obj"
  proof -
    have "?ties i obj = 0" if "i < n" "obj \<in> set (os ! i)" for i obj
    proof -
      have "set (topk (output ! i) N) \<subseteq> {0..<length (output ! i)}"
        using tk that(1) row [OF that(1)] by (auto simp: is_topk_def list_all_iff)
      moreover have "\<forall>j<length (output ! i). j \<noteq> nat obj \<longrightarrow> output ! i ! j \<noteq> output ! i ! nat obj"
        using nt that row [OF that(1)] by simp
      ultimately show ?thesis using no_ties_before [of "output ! i" "nat obj"] by simp
    qed
    then have "map ?g [0..<n]
               = map (\<lambda>i. map (\<lambda>obj. 1 + count_above (output ! i) (nat obj)) (os ! i)) [0..<n]"
      by (intro map_cong refl) simp
    then show ?thesis using a by (simp only:)
  qed
  show ?thesis using a b by blast
qed

theorem batch_ranks_position_in_topk_order_witness:
  "batch_ranks topk_lowest_index_first 1 [[sigmoid 3, sigmoid 3]] 1 [[0, 1]]
     = Inr [1 + count_above [sigmoid 3, sigmoid 3] 0 + 0, 1 + count_above [sigmoid 3, sigmoid 3] 1 + 1]
   \<and> batch_ranks topk_lowest_index_first 1 [[sigmoid 3, sigmoid 3]] 1 [[0, 1]] = Inr [1, 2]
   \<and> batch_ranks topk_lowest_index_first 1 [[sigmoid 3, sigmoid 2, sigmoid 1, sigmoid 0]] 1 [[0, 1, 3]]
     = Inr [1 + count_above [sigmoid 3, sigmoid 2, sigmoid 1, sigmoid 0] 0,
            1 + count_above [sigmoid 3, sigmoid 2, sigmoid 1, sigmoid 0] 1,
            1 + count_above [sigmoid 3, sigmoid 2, sigmoid 1, sigmoid 0] 3]
   \<and> batch_ranks topk_lowest_index_first 1 [[sigmoid 3, sigmoid 2, sigmoid 1, sigmoid 0]] 1 [[0, 1, 3]]
     = Inr [1, 2, 4]"
proof -
  let ?t = "[[sigmoid 3, sigmoid 3]]" and ?r = "[[sigmoid 3, sigmoid 2, sigmoid 1, sigmoid 0]]"
  have t: "batch_ranks topk_lowest_index_first 1 ?t 1 [[0, 1]] = Inr [1, 2]"
    using batch_ranks_position_in_topk_order [of 1 2 ?t "[[0, 1]]" 1 topk_lowest_index_first]
    by (simp add: is_shape2_def is_topk_def topk_lowest_index_first_def upt_num count_above_def)
  have r: "batch_ranks topk_lowest_index_first 1 ?r 1 [[0, 1, 3]] = Inr [1, 2, 4]"
    using batch_ranks_position_in_topk_order [of 1 4 ?r "[[0, 1, 3]]" 1 topk_lowest_index_first]
    by (simp add: is_shape2_def is_topk_def topk_lowest_index_first_def upt_num count_above_def)
  show ?thesis using t r by (simp add: count_above_def)
qed

subsection \<open>Sigmoid scores and logits\<close>









lemma is_topk_mono:
  assumes m: "\<And>x y. x \<le> y \<Longrightarrow> f x \<le> f (y::real)" and tk: "is_topk row k ixs"
  shows "is_topk (map f row) k ixs"
proof -
  have r: "\<forall>i\<in>set ixs. i < length row" using tk by (simp add: is_topk_def list_all_iff)
  have le: "map f row ! j \<le> map f row ! i"
    if "i < length row" "j < length row" "row ! j \<le> row ! i" for i j
    using that m by simp
  have "sorted_wrt (\<lambda>i j. row ! j \<le> row ! i) ixs" using tk by (simp add: is_topk_def)
  then have s: "sorted_wrt (\<lambda>i j. map f row ! j \<le> map f row ! i) ixs"
    unfolding sorted_wrt_iff_nth_less using r le by (metis nth_mem order_less_trans)
  have "list_all (\<lambda>j. j \<in> set ixs \<or> list_all (\<lambda>i. row ! j \<le> row ! i) ixs) [0..<length row]"
    using tk by (simp add: is_topk_def)
  then have o: "list_all (\<lambda>j. j \<in> set ixs \<or> list_all (\<lambda>i. map f row ! j \<le> map f row ! i) ixs)
             [0..<length row]"
    unfolding list_all_iff using r le by auto
  show ?thesis using tk s o by (simp add: is_topk_def)
qed

subsection \<open>Mean rank and mean reciprocal rank\<close>

lemma sequence_err_Inr_nth:
  "sequence_err xs = Inr vs \<Longrightarrow> length vs = length xs \<and> (\<forall>i<length xs. xs ! i = Inr (vs ! i))"
proof (induction xs arbitrary: vs)
  case Nil
  then show ?case by simp
next
  case (Cons x xs)
  then obtain v vs' where x: "x = Inr v" and r: "sequence_err xs = Inr vs'" and vs: "vs = v # vs'"
    by (auto split: sum.splits)
  show ?case using Cons.IH [OF r] x vs by (auto simp: nth_Cons split: nat.splits)
qed

lemma sequence_err_Inr_set:
  assumes "sequence_err (map f xs) = Inr vs" "v \<in> set vs"
  shows "\<exists>x\<in>set xs. f x = Inr v"
proof -
  obtain i where i: "i < length vs" "vs ! i = v" using assms(2) by (auto simp: in_set_conv_nth)
  have "length vs = length xs" "map f xs ! i = Inr (vs ! i)"
    using sequence_err_Inr_nth [OF assms(1)] i(1) by simp_all
  then show ?thesis using i by (auto intro!: bexI [of _ "xs ! i"])
qed

lemma rank_of_ge_1: "rank_of ixs obj = Inr rank \<Longrightarrow> 1 \<le> rank"
  by (auto simp: rank_of_def split: sum.splits prod.splits)

lemma batch_ranks_ge_1:
  assumes "batch_ranks topk batch_size output s_size os = Inr rs" "rank \<in> set rs"
  shows "1 \<le> rank"
proof -
  let ?f = "\<lambda>i. if i < length output \<and> i < length os
                 then element_ranks topk (width output) (output ! i) (os ! i)
                 else Inl IndexError"
  obtain rss where rss: "sequence_err (map ?f [0..<min batch_size s_size]) = Inr rss"
    and rs: "rs = concat rss"
    using assms(1) by (auto simp: batch_ranks_def split: sum.splits)
  obtain er where er: "er \<in> set rss" "rank \<in> set er" using assms(2) rs by auto
  obtain i where "?f i = Inr er" using sequence_err_Inr_set [OF rss er(1)] by blast
  then have "element_ranks topk (width output) (output ! i) (os ! i) = Inr er"
    by (auto split: if_splits)
  then obtain obj where "rank_of (topk (output ! i) (width output)) obj = Inr rank"
    using sequence_err_Inr_set [of "rank_of (topk (output ! i) (width output))" "os ! i" er rank] er(2)
    by (auto simp: element_ranks_def)
  then show ?thesis by (rule rank_of_ge_1)
qed

lemma valid_ranks_ge_1:
  "valid_ranks topk score batch_size batches = Inr ranks \<Longrightarrow> \<forall>rank\<in>set ranks. 1 \<le> rank"
proof (induction batches arbitrary: ranks)
  case Nil
  then show ?case by simp
next
  case (Cons b batches)
  obtain s r os where b: "b = (s, r, os)" by (cases b)
  obtain out rs rest where "score s r = Inr out"
    and rs: "batch_ranks topk batch_size out (length s) os = Inr rs"
    and rest: "valid_ranks topk score batch_size batches = Inr rest"
    and ranks: "ranks = rs @ rest"
    using Cons.prems by (auto simp: b split: sum.splits)
  show ?case
    using batch_ranks_ge_1 [OF rs] Cons.IH [OF rest] ranks by auto
qed

lemma valid_metrics_nonempty:
  "ranks \<noteq> [] \<Longrightarrow>
   valid_metrics ranks = (Some ((\<Sum>rank\<leftarrow>ranks. real rank) / real (length ranks)),
                          Some ((\<Sum>rank\<leftarrow>ranks. 1 / real rank) / real (length ranks)))"
  by (simp add: valid_metrics_def mean_def o_def)

text \<open>
  Claim C6. When the evaluator has collected a non-empty list of ranks over the batches of
  a split, it reports as MR the arithmetic mean of the ranks and as MRR the arithmetic
  mean of their reciprocals. Every collected rank is at least 1, so no reciprocal divides
  by 0. For the ranks \<open>[1, 2, 4]\<close>, MR is \<open>7/3\<close> and MRR is \<open>(1 + 1/2 + 1/4)/3 = 7/12\<close>.
\<close>

theorem valid_reports_mean_rank_and_mean_reciprocal_rank:
  assumes "valid_ranks topk (DSConvE_test m) batch_size batches = Inr ranks" "ranks \<noteq> []"
  shows "valid m topk batch_size batches
           = Inr (Some ((\<Sum>rank\<leftarrow>ranks. real rank) / real (length ranks)),
                  Some ((\<Sum>rank\<leftarrow>ranks. 1 / real rank) / real (length ranks)))
       \<and> (\<forall>rank\<in>set ranks. 1 \<le> rank)
       \<and> valid_metrics [1, 2, 4] = (Some (7 / 3), Some (7 / 12))"
proof -
  have "valid_metrics [1, 2, 4] = (Some (7 / 3), Some (7 / 12))"
    by (simp add: valid_metrics_def mean_def)
  then show ?thesis
    using valid_metrics_nonempty [OF assms(2)] valid_ranks_ge_1 [OF assms(1)]
    by (simp add: valid_def assms(1))
qed

theorem valid_reports_mean_rank_and_mean_reciprocal_rank_witness:
  "DSConvE_wf 2 2 rank_model
   \<and> valid_ranks topk_lowest_index_first (DSConvE_test rank_model) 1 [([0], [0], [[0, 1, 3]])]
     = Inr [1, 2, 4]
   \<and> valid rank_model topk_lowest_index_first 1 [([0], [0], [[0, 1, 3]])]
     = Inr (Some (7 / 3), Some (7 / 12))"
  using valid_reports_mean_rank_and_mean_reciprocal_rank [OF rank_ranks] rank_ranks rank_wf
  by simp



end
